theory Spec2Isabelle
  imports Complex_Main "HOL-Library.Log_Nat"
begin

section \<open>Data model of the transaction store (App.jsx)\<close>

subsection \<open>JavaScript numbers\<close>

text \<open>
  An amount is a JavaScript Number, that is an IEEE-754 binary64 value. A finite double
  is kept as the real number it denotes; the two infinities and NaN are separate values.
  The two zeros are identified: the code only adds, compares, negates and takes
  absolute values, none of which tells them apart.
\<close>

datatype number = Fin real | PosInf | NegInf | NaN

text \<open>
  \<open>ilog2 x\<close> is, for positive \<open>x\<close>, the exponent \<open>k\<close> with \<open>2\<^sup>k \<le> x < 2\<^sup>k\<^sup>+\<^sup>1\<close>.
\<close>

definition ilog2 :: "real \<Rightarrow> int" where
  "ilog2 x = (if 1 \<le> x then bitlen \<lfloor>x\<rfloor> - 1 else - bitlen (\<lceil>1 / x\<rceil> - 1))"

definition round_half_even :: "real \<Rightarrow> int" where
  "round_half_even q =
     (let f = \<lfloor>q\<rfloor>; r = q - of_int f in
      if r < 1 / 2 then f else if 1 / 2 < r then f + 1 else if even f then f else f + 1)"

text \<open>
  Rounding of an exact result to binary64, to nearest with ties to even: 53 significant
  bits, the least exponent of the last place \<open>-1074\<close> (subnormal numbers), and
  overflow to an infinity from \<open>2\<^sup>1\<^sup>0\<^sup>2\<^sup>4\<close> on.
\<close>

definition round_double :: "real \<Rightarrow> number" where
  "round_double x =
     (if x = 0 then Fin 0
      else
        let e = max (ilog2 \<bar>x\<bar> - 52) (- 1074);
            y = of_int (round_half_even (\<bar>x\<bar> / 2 powi e)) * 2 powi e
        in if 2 ^ 1024 \<le> y then (if 0 < x then PosInf else NegInf) else Fin (sgn x * y))"

text \<open>The operators the code applies to amounts: \<open>+\<close>, \<open>*\<close>, \<open><\<close>, \<open>>\<close> and \<open>Math.abs\<close>.\<close>

fun js_add :: "number \<Rightarrow> number \<Rightarrow> number" where
  "js_add (Fin a) (Fin b) = round_double (a + b)"
| "js_add NaN _ = NaN"
| "js_add _ NaN = NaN"
| "js_add PosInf NegInf = NaN"
| "js_add NegInf PosInf = NaN"
| "js_add PosInf _ = PosInf"
| "js_add _ PosInf = PosInf"
| "js_add NegInf _ = NegInf"
| "js_add _ NegInf = NegInf"

fun sign_of :: "number \<Rightarrow> real" where
  "sign_of (Fin a) = sgn a"
| "sign_of PosInf = 1"
| "sign_of NegInf = - 1"
| "sign_of NaN = 0"

definition signed_infinity :: "real \<Rightarrow> number" where
  "signed_infinity s = (if s = 0 then NaN else if 0 < s then PosInf else NegInf)"

fun js_mul :: "number \<Rightarrow> number \<Rightarrow> number" where
  "js_mul (Fin a) (Fin b) = round_double (a * b)"
| "js_mul NaN _ = NaN"
| "js_mul _ NaN = NaN"
| "js_mul a b = signed_infinity (sign_of a * sign_of b)"

fun js_lt :: "number \<Rightarrow> number \<Rightarrow> bool" where
  "js_lt (Fin a) (Fin b) = (a < b)"
| "js_lt NaN _ = False"
| "js_lt _ NaN = False"
| "js_lt PosInf _ = False"
| "js_lt _ NegInf = False"
| "js_lt _ _ = True"

definition js_gt :: "number \<Rightarrow> number \<Rightarrow> bool" where
  "js_gt a b = js_lt b a"

fun js_abs :: "number \<Rightarrow> number" where
  "js_abs (Fin a) = Fin \<bar>a\<bar>"
| "js_abs PosInf = PosInf"
| "js_abs NegInf = PosInf"
| "js_abs NaN = NaN"

subsection \<open>Transactions and the store state\<close>

text \<open>
  A transaction as the server sends it. The fields \<open>_id\<close> and \<open>text\<close> are named
  \<open>tx_id\<close> and \<open>tx_text\<close> here. \<open>category\<close> and \<open>createdAt\<close> may be missing.
\<close>

record transaction =
  tx_id :: string
  tx_text :: string
  amount :: number
  category :: "string option"
  createdAt :: "string option"

text \<open>
  The error slot starts as \<open>null\<close> and is later assigned whatever
  \<open>err.response?.data?.error\<close> evaluates to: \<open>undefined\<close>, or the value the server put
  in the body's \<open>error\<close> field, which is a message string, \<open>null\<close>, or any other JSON
  value (\<open>Other_value\<close>, holding its JSON text).
\<close>

datatype errval = Null | Undefined | Message string | Other_value string

record state =
  transactions :: "transaction list"
  error :: errval
  loading :: bool
  editing :: "transaction option"

definition initialState :: state where
  "initialState = \<lparr>transactions = [], error = Null, loading = True, editing = None\<rparr>"

text \<open>
  An action is an object with a \<open>type\<close> string and a payload. Each of the six types the
  reducer knows is a constructor carrying the payload its dispatch site passes;
  \<open>OTHER_ACTION ty\<close> is an action whose type string \<open>ty\<close> is none of the six.
\<close>

datatype action =
    GET_TRANSACTIONS "transaction list"
  | DELETE_TRANSACTION string
  | ADD_TRANSACTION transaction
  | UPDATE_TRANSACTION transaction
  | SET_EDITING "transaction option"
  | TRANSACTION_ERROR errval
  | OTHER_ACTION string

fun action_type :: "action \<Rightarrow> string" where
  "action_type (GET_TRANSACTIONS _) = ''GET_TRANSACTIONS''"
| "action_type (DELETE_TRANSACTION _) = ''DELETE_TRANSACTION''"
| "action_type (ADD_TRANSACTION _) = ''ADD_TRANSACTION''"
| "action_type (UPDATE_TRANSACTION _) = ''UPDATE_TRANSACTION''"
| "action_type (SET_EDITING _) = ''SET_EDITING''"
| "action_type (TRANSACTION_ERROR _) = ''TRANSACTION_ERROR''"
| "action_type (OTHER_ACTION ty) = ty"

definition recognized_types :: "string list" where
  "recognized_types =
     [''GET_TRANSACTIONS'', ''DELETE_TRANSACTION'', ''ADD_TRANSACTION'',
      ''UPDATE_TRANSACTION'', ''SET_EDITING'', ''TRANSACTION_ERROR'']"

subsection \<open>The reducer\<close>

fun AppReducer :: "state \<Rightarrow> action \<Rightarrow> state" where
  "AppReducer state (GET_TRANSACTIONS payload) =
     state\<lparr>loading := False, transactions := payload\<rparr>"
| "AppReducer state (DELETE_TRANSACTION payload) =
     state\<lparr>transactions := filter (\<lambda>t. tx_id t \<noteq> payload) (transactions state)\<rparr>"
| "AppReducer state (ADD_TRANSACTION payload) =
     state\<lparr>transactions := transactions state @ [payload]\<rparr>"
| "AppReducer state (UPDATE_TRANSACTION payload) =
     state\<lparr>transactions :=
              map (\<lambda>t. if tx_id t = tx_id payload then payload else t) (transactions state),
            editing := None\<rparr>"
| "AppReducer state (SET_EDITING payload) = state\<lparr>editing := payload\<rparr>"
| "AppReducer state (TRANSACTION_ERROR payload) = state\<lparr>error := payload\<rparr>"
| "AppReducer state (OTHER_ACTION ty) = state"

text \<open>The ids of the list, and the transitions that keep them pairwise distinct.\<close>

definition ids :: "state \<Rightarrow> string list" where
  "ids s = map tx_id (transactions s)"

fun keeps_ids_distinct :: "state \<Rightarrow> action \<Rightarrow> bool" where
  "keeps_ids_distinct s (GET_TRANSACTIONS payload) = distinct (map tx_id payload)"
| "keeps_ids_distinct s (ADD_TRANSACTION payload) = (tx_id payload \<notin> set (ids s))"
| "keeps_ids_distinct s _ = True"

subsection \<open>The sync layer\<close>

text \<open>
  A rejected axios call carries an error object. Its \<open>response\<close> is missing when the
  request never reached the server; the response's \<open>data\<close> is missing when the body is
  empty; the body's \<open>error\<close> property is missing when the server sent none, and
  otherwise holds the value the server sent.
\<close>

record response_data =
  data_error :: "errval option"

record response =
  data :: "response_data option"

record axios_error =
  response :: "response option"

text \<open>The expression \<open>err.response?.data?.error\<close> of every \<open>catch\<close> block.\<close>

definition error_payload :: "axios_error \<Rightarrow> errval" where
  "error_payload err =
     (case response err of
        None \<Rightarrow> Undefined
      | Some r \<Rightarrow>
          (case data r of
             None \<Rightarrow> Undefined
           | Some d \<Rightarrow> (case data_error d of None \<Rightarrow> Undefined | Some v \<Rightarrow> v)))"

text \<open>The error field of the response body, when there is one.\<close>

definition structured_error :: "axios_error \<Rightarrow> errval option" where
  "structured_error err =
     Option.bind (response err) (\<lambda>r. Option.bind (data r) data_error)"

text \<open>
  The awaited network call either resolves with \<open>res.data.data\<close> or rejects. Each
  operation takes the store state at the moment it dispatches and returns the state
  after the dispatch.
\<close>

datatype 'a outcome = Resolved 'a | Rejected axios_error

record draft =
  draft_text :: string
  draft_amount :: number
  draft_category :: string

definition getTransactions :: "state \<Rightarrow> transaction list outcome \<Rightarrow> state" where
  "getTransactions state res =
     (case res of
        Resolved payload \<Rightarrow> AppReducer state (GET_TRANSACTIONS payload)
      | Rejected err \<Rightarrow> AppReducer state (TRANSACTION_ERROR (error_payload err)))"

definition deleteTransaction :: "state \<Rightarrow> string \<Rightarrow> unit outcome \<Rightarrow> state" where
  "deleteTransaction state ident res =
     (case res of
        Resolved _ \<Rightarrow> AppReducer state (DELETE_TRANSACTION ident)
      | Rejected err \<Rightarrow> AppReducer state (TRANSACTION_ERROR (error_payload err)))"

definition addTransaction :: "state \<Rightarrow> draft \<Rightarrow> transaction outcome \<Rightarrow> state" where
  "addTransaction state transaction res =
     (case res of
        Resolved payload \<Rightarrow> AppReducer state (ADD_TRANSACTION payload)
      | Rejected err \<Rightarrow> AppReducer state (TRANSACTION_ERROR (error_payload err)))"

definition updateTransaction ::
  "state \<Rightarrow> string \<Rightarrow> draft \<Rightarrow> transaction outcome \<Rightarrow> state" where
  "updateTransaction state ident updatedData res =
     (case res of
        Resolved payload \<Rightarrow> AppReducer state (UPDATE_TRANSACTION payload)
      | Rejected err \<Rightarrow> AppReducer state (TRANSACTION_ERROR (error_payload err)))"

subsection \<open>Submitting the form (AddTransaction.onSubmit)\<close>

text \<open>
  The form's amount is the string typed into the input, or the number copied from the
  transaction being edited. \<open>+amount\<close> converts it; the conversion of a string to a
  number is a parameter \<open>toNumber\<close> of the model.
\<close>

datatype amount_input = Typed string | Loaded number

record form =
  form_text :: string
  form_amount :: amount_input
  form_category :: string

definition empty_form :: form where
  "empty_form = \<lparr>form_text = [], form_amount = Typed [], form_category = ''Other''\<rparr>"

fun unary_plus :: "(string \<Rightarrow> number) \<Rightarrow> amount_input \<Rightarrow> number" where
  "unary_plus toNumber (Typed s) = toNumber s"
| "unary_plus toNumber (Loaded n) = n"

datatype sync_call = Call_addTransaction draft | Call_updateTransaction string draft

definition form_data :: "(string \<Rightarrow> number) \<Rightarrow> form \<Rightarrow> draft" where
  "form_data toNumber f =
     \<lparr>draft_text = form_text f,
      draft_amount = unary_plus toNumber (form_amount f),
      draft_category = form_category f\<rparr>"

text \<open>\<open>onSubmit\<close> returns the call it makes and the form it leaves behind.\<close>

definition onSubmit ::
  "(string \<Rightarrow> number) \<Rightarrow> transaction option \<Rightarrow> form \<Rightarrow> sync_call \<times> form" where
  "onSubmit toNumber editing_slot f =
     (let data = form_data toNumber f in
      (case editing_slot of
         Some e \<Rightarrow> Call_updateTransaction (tx_id e) data
       | None \<Rightarrow> Call_addTransaction data,
       empty_form))"

subsection \<open>Derived views (Balance, IncomeExpenses, SpendingChart)\<close>

text \<open>
  The three totals are the values of the \<open>reduce\<close> expressions, before
  \<open>.toFixed(2)\<close> formats them for display.
\<close>

definition Balance_total :: "transaction list \<Rightarrow> number" where
  "Balance_total txs = foldl (\<lambda>acc item. js_add acc (amount item)) (Fin 0) txs"

definition IncomeExpenses_income :: "transaction list \<Rightarrow> number" where
  "IncomeExpenses_income txs =
     foldl (\<lambda>acc item. js_add acc (amount item)) (Fin 0)
       (filter (\<lambda>item. js_gt (amount item) (Fin 0)) txs)"

definition IncomeExpenses_expense :: "transaction list \<Rightarrow> number" where
  "IncomeExpenses_expense txs =
     js_mul
       (foldl (\<lambda>acc item. js_add acc (amount item)) (Fin 0)
          (filter (\<lambda>item. js_lt (amount item) (Fin 0)) txs))
       (Fin (- 1))"

text \<open>
  The ids of the seven \<open>CATEGORIES\<close>, and the id of the entry \<open>getCatDetails\<close> returns for
  the category of a list row: \<open>CATEGORIES.find(c => c.id === id) || CATEGORIES[6]\<close>.
\<close>

definition CATEGORIES :: "string list" where
  "CATEGORIES =
     [''Food'', ''Rent'', ''Utilities'', ''Entertainment'', ''Health'', ''Salary'', ''Other'']"

definition getCatDetails :: "string option \<Rightarrow> string" where
  "getCatDetails ident =
     (case find (\<lambda>c. Some c = ident) CATEGORIES of Some c \<Rightarrow> c | None \<Rightarrow> CATEGORIES ! 6)"

text \<open>An entry \<open>{name, value}\<close> of the chart data.\<close>

record slice =
  slice_name :: string
  slice_value :: number

text \<open>
  \<open>curr.category || 'Other'\<close>: a missing category and the empty string are falsy.
  (The source's \<open>curr\<close> is written \<open>cur\<close>.)
\<close>

definition category_or_Other :: "transaction \<Rightarrow> string" where
  "category_or_Other cur =
     (case category cur of None \<Rightarrow> ''Other'' | Some c \<Rightarrow> if c = [] then ''Other'' else c)"

text \<open>
  \<open>existing.value += v\<close> on the entry \<open>acc.find\<close> returned: the first entry with
  that name is updated in place.
\<close>

fun add_to_existing :: "string \<Rightarrow> number \<Rightarrow> slice list \<Rightarrow> slice list" where
  "add_to_existing cat v [] = []"
| "add_to_existing cat v (item # rest) =
     (if slice_name item = cat
      then item\<lparr>slice_value := js_add (slice_value item) v\<rparr> # rest
      else item # add_to_existing cat v rest)"

definition SpendingChart_step :: "slice list \<Rightarrow> transaction \<Rightarrow> slice list" where
  "SpendingChart_step acc cur =
     (let cat = category_or_Other cur in
      case find (\<lambda>item. slice_name item = cat) acc of
        Some existing \<Rightarrow> add_to_existing cat (js_abs (amount cur)) acc
      | None \<Rightarrow> acc @ [\<lparr>slice_name = cat, slice_value = js_abs (amount cur)\<rparr>])"

definition SpendingChart_data :: "transaction list \<Rightarrow> slice list" where
  "SpendingChart_data txs =
     foldl SpendingChart_step [] (filter (\<lambda>t. js_lt (amount t) (Fin 0)) txs)"

definition SpendingChart_totalExpense :: "transaction list \<Rightarrow> number" where
  "SpendingChart_totalExpense txs =
     foldl (\<lambda>acc item. js_add acc (slice_value item)) (Fin 0) (SpendingChart_data txs)"

subsection \<open>Quantities the numeric properties are stated with\<close>

text \<open>
  Whether a number is finite, whether it is a whole number, and the real a finite
  number denotes.
\<close>

fun is_finite :: "number \<Rightarrow> bool" where
  "is_finite (Fin a) = True"
| "is_finite _ = False"

fun value_of :: "number \<Rightarrow> real" where
  "value_of (Fin a) = a"
| "value_of _ = 0"

fun is_integer :: "number \<Rightarrow> bool" where
  "is_integer (Fin a) = (a = of_int \<lfloor>a\<rfloor>)"
| "is_integer _ = False"

text \<open>The expense entries of a list, and the exact sum of the absolute amounts of a list.\<close>

definition expenses :: "transaction list \<Rightarrow> transaction list" where
  "expenses txs = filter (\<lambda>t. js_lt (amount t) (Fin 0)) txs"

definition abs_total :: "transaction list \<Rightarrow> real" where
  "abs_total txs = sum_list (map (\<lambda>t. \<bar>value_of (amount t)\<bar>) txs)"

text \<open>
  The unit roundoff of binary64 and the least positive normal number: rounding moves a
  result \<open>x\<close> by at most \<open>unit_roundoff * (\<bar>x\<bar> + underflow_unit)\<close>.
\<close>

definition unit_roundoff :: real where
  "unit_roundoff = 1 / 2 ^ 53"

definition underflow_unit :: real where
  "underflow_unit = 1 / 2 ^ 1022"

text \<open>
  The exact sum of the chart entries; chart entries that are whole and not negative;
  chart entries that are finite and not negative.
\<close>

definition slices_total :: "slice list \<Rightarrow> real" where
  "slices_total acc = sum_list (map (\<lambda>item. value_of (slice_value item)) acc)"

definition whole_slices :: "slice list \<Rightarrow> bool" where
  "whole_slices acc =
     list_all (\<lambda>item. is_integer (slice_value item) \<and> 0 \<le> value_of (slice_value item)) acc"

definition finite_slices :: "slice list \<Rightarrow> bool" where
  "finite_slices acc =
     list_all (\<lambda>item. is_finite (slice_value item) \<and> 0 \<le> value_of (slice_value item)) acc"

subsection \<open>Sample values\<close>

definition tx_lunch :: transaction where
  "tx_lunch = \<lparr>tx_id = ''a1'', tx_text = ''lunch'', amount = Fin (- 20),
                category = Some ''Food'', createdAt = None\<rparr>"

definition tx_pay :: transaction where
  "tx_pay = \<lparr>tx_id = ''b2'', tx_text = ''pay'', amount = Fin 50,
              category = Some ''Salary'', createdAt = None\<rparr>"

definition store_one :: state where
  "store_one = \<lparr>transactions = [tx_lunch], error = Message ''Server Error'',
                 loading = False, editing = Some tx_lunch\<rparr>"

definition draft_dinner :: draft where
  "draft_dinner = \<lparr>draft_text = ''dinner'', draft_amount = Fin (- 30),
                    draft_category = ''Food''\<rparr>"

definition network_failure :: axios_error where
  "network_failure = \<lparr>response = None\<rparr>"

text \<open>
  The amounts \<open>-1.1\<close>, \<open>-2.2\<close> and \<open>-3.3\<close> as the JSON parser delivers them: the doubles
  nearest to the decimals.
\<close>

definition txs_decimal :: "transaction list" where
  "txs_decimal =
     [\<lparr>tx_id = ''d1'', tx_text = ''bread'', amount = round_double (- (11 / 10)),
       category = Some ''Food'', createdAt = None\<rparr>,
      \<lparr>tx_id = ''d2'', tx_text = ''water'', amount = round_double (- (22 / 10)),
       category = Some ''Utilities'', createdAt = None\<rparr>,
      \<lparr>tx_id = ''d3'', tx_text = ''fruit'', amount = round_double (- (33 / 10)),
       category = Some ''Food'', createdAt = None\<rparr>]"

text \<open>Amounts of magnitude \<open>2\<^sup>5\<^sup>3 = 9007199254740992\<close>, where a double no longer has a units digit.\<close>

definition txs_absorb :: "transaction list" where
  "txs_absorb =
     [\<lparr>tx_id = ''h1'', tx_text = ''sale'', amount = Fin 9007199254740992,
       category = Some ''Salary'', createdAt = None\<rparr>,
      \<lparr>tx_id = ''h2'', tx_text = ''purchase'', amount = Fin (- 9007199254740992),
       category = Some ''Other'', createdAt = None\<rparr>,
      \<lparr>tx_id = ''h3'', tx_text = ''tip'', amount = Fin 1,
       category = Some ''Salary'', createdAt = None\<rparr>]"

definition tx_snack :: transaction where
  "tx_snack = \<lparr>tx_id = ''c3'', tx_text = ''snack'', amount = Fin (- 10),
                category = Some ''Food'', createdAt = None\<rparr>"

definition tx_trip :: transaction where
  "tx_trip = \<lparr>tx_id = ''t9'', tx_text = ''train'', amount = Fin (- 5),
               category = Some ''Travel'', createdAt = None\<rparr>"

definition tx_legacy :: transaction where
  "tx_legacy = \<lparr>tx_id = ''t8'', tx_text = ''old entry'', amount = Fin (- 3),
                 category = None, createdAt = None\<rparr>"

section \<open>Properties of the reducer and the sync layer\<close>

lemma map_replace_ids:
  "map tx_id (map (\<lambda>t. if tx_id t = tx_id p then p else t) xs) = map tx_id xs"
  by (induction xs) auto

lemma map_replace_absent:
  "\<forall>t \<in> set xs. tx_id t \<noteq> tx_id p \<Longrightarrow>
   map (\<lambda>t. if tx_id t = tx_id p then p else t) xs = xs"
  by (induction xs) auto

text \<open>
  Claim C4. Applying \<open>Replace(tx)\<close> (the action \<open>UPDATE_TRANSACTION\<close>) when no entry
  of the list has the id of \<open>tx\<close> leaves the list unchanged, and in every case the
  editing slot becomes null.
\<close>

theorem replace_absent_keeps_list_clears_editing:
  "((\<forall>t \<in> set (transactions s). tx_id t \<noteq> tx_id tx) \<longrightarrow>
      transactions (AppReducer s (UPDATE_TRANSACTION tx)) = transactions s) \<and>
   editing (AppReducer s (UPDATE_TRANSACTION tx)) = None"
  by (simp add: map_replace_absent)

theorem replace_absent_keeps_list_clears_editing_witness:
  "map tx_id (transactions store_one) = [''a1''] \<and> tx_id tx_pay = ''b2'' \<and>
   transactions (AppReducer store_one (UPDATE_TRANSACTION tx_pay)) = [tx_lunch] \<and>
   editing store_one = Some tx_lunch \<and>
   editing (AppReducer store_one (UPDATE_TRANSACTION tx_pay)) = None"
proof -
  have absent: "\<forall>t \<in> set (transactions store_one). tx_id t \<noteq> tx_id tx_pay"
    by (simp add: store_one_def tx_lunch_def tx_pay_def)
  have "transactions store_one = [tx_lunch]" "editing store_one = Some tx_lunch"
    "map tx_id (transactions store_one) = [''a1'']" "tx_id tx_pay = ''b2''"
    by (simp_all add: store_one_def tx_lunch_def tx_pay_def)
  with absent
    replace_absent_keeps_list_clears_editing [of store_one tx_pay]
  show ?thesis by simp
qed

text \<open>
  Claim C5, as stated: every transition keeps the ids of the list pairwise distinct.
  \<open>Add\<close> appends its payload without looking at the list, so adding a transaction
  whose id is already there breaks distinctness.
\<close>

theorem add_duplicate_id_counterexample:
  "distinct (ids store_one) \<and>
   \<not> distinct (ids (AppReducer store_one (ADD_TRANSACTION tx_lunch)))"
  by (simp add: ids_def store_one_def)

text \<open>
  Claim C5, amended. From a state with pairwise distinct ids, \<open>Remove\<close>, \<open>Replace\<close>,
  \<open>SetEditing\<close>, \<open>SetError\<close> and an unrecognized action always give distinct ids again;
  \<open>SetAll(list)\<close> does exactly when the ids of \<open>list\<close> are distinct, and \<open>Add(tx)\<close>
  exactly when the id of \<open>tx\<close> is not yet in the list.
\<close>

theorem distinct_ids_preserved:
  "distinct (ids s) \<Longrightarrow> distinct (ids (AppReducer s a)) = keeps_ids_distinct s a"
  by (cases a) (simp_all add: ids_def map_replace_ids distinct_map_filter del: map_map)

theorem distinct_ids_preserved_witness:
  "distinct (ids store_one) \<and>
   distinct (ids (AppReducer store_one (ADD_TRANSACTION tx_pay))) \<and>
   distinct (ids (AppReducer store_one (DELETE_TRANSACTION ''a1'')))"
proof -
  have d: "distinct (ids store_one)"
    by (simp add: ids_def store_one_def)
  have "keeps_ids_distinct store_one (ADD_TRANSACTION tx_pay)"
    by (simp add: ids_def store_one_def tx_lunch_def tx_pay_def)
  with d distinct_ids_preserved [OF d, of "ADD_TRANSACTION tx_pay"]
    distinct_ids_preserved [OF d, of "DELETE_TRANSACTION ''a1''"]
  show ?thesis by simp
qed

text \<open>
  Claim C7. A failed operation dispatches \<open>TRANSACTION_ERROR\<close> only, and that
  transition changes nothing but the error field: the list, the editing slot and the
  loading flag stay as they were, for each of the four operations.
\<close>

theorem failed_operation_changes_only_error:
  "AppReducer s (TRANSACTION_ERROR m) = s\<lparr>error := m\<rparr> \<and>
   getTransactions s (Rejected e) = s\<lparr>error := error_payload e\<rparr> \<and>
   deleteTransaction s i (Rejected e) = s\<lparr>error := error_payload e\<rparr> \<and>
   addTransaction s d (Rejected e) = s\<lparr>error := error_payload e\<rparr> \<and>
   updateTransaction s i d (Rejected e) = s\<lparr>error := error_payload e\<rparr> \<and>
   transactions (s\<lparr>error := m\<rparr>) = transactions s \<and>
   editing (s\<lparr>error := m\<rparr>) = editing s \<and>
   loading (s\<lparr>error := m\<rparr>) = loading s"
  by (simp add: getTransactions_def deleteTransaction_def addTransaction_def
      updateTransaction_def)

text \<open>
  Claim C3, as stated: after a failed operation the error slot holds a non-null
  message, a generic one when the response has no structured error. The code has no
  generic message: when the request never reached the server the slot becomes
  \<open>undefined\<close>.
\<close>

theorem no_fallback_message_counterexample:
  "error (addTransaction initialState draft_dinner (Rejected network_failure)) = Undefined"
  by (simp add: addTransaction_def error_payload_def network_failure_def)

text \<open>
  Claim C3, amended. After a failed operation (list, create, remove, update) the error
  slot holds \<open>err.response?.data?.error\<close>: the value of the error field of the response
  body when the body has one, unchanged, and \<open>undefined\<close> in every other case. No
  generic message is put in its place.
\<close>

theorem failed_operation_error_slot:
  "error (getTransactions s (Rejected e)) = error_payload e \<and>
   error (deleteTransaction s i (Rejected e)) = error_payload e \<and>
   error (addTransaction s d (Rejected e)) = error_payload e \<and>
   error (updateTransaction s i d (Rejected e)) = error_payload e \<and>
   error_payload e =
     (case structured_error e of Some v \<Rightarrow> v | None \<Rightarrow> Undefined)"
  by (simp add: getTransactions_def deleteTransaction_def addTransaction_def
      updateTransaction_def error_payload_def structured_error_def split: option.splits)

text \<open>
  Claim C8. Submitting the form makes exactly one call, chosen by the editing slot:
  with the slot null it calls \<open>addTransaction\<close> with the draft
  \<open>{text, amount: +amount, category}\<close>, otherwise \<open>updateTransaction\<close> with the id of the
  edited transaction and the same draft. The reducer is total: an action whose type is
  none of the six it knows gives back the state it was applied to.
\<close>

theorem submit_routing_and_default_case:
  "fst (onSubmit toNumber None f) =
     Call_addTransaction
       \<lparr>draft_text = form_text f, draft_amount = unary_plus toNumber (form_amount f),
        draft_category = form_category f\<rparr> \<and>
   fst (onSubmit toNumber (Some e) f) =
     Call_updateTransaction (tx_id e)
       \<lparr>draft_text = form_text f, draft_amount = unary_plus toNumber (form_amount f),
        draft_category = form_category f\<rparr> \<and>
   (action_type a \<notin> set recognized_types \<longrightarrow> AppReducer s a = s)"
  by (cases a) (simp_all add: onSubmit_def form_data_def recognized_types_def)

theorem submit_routing_and_default_case_witness:
  "action_type (OTHER_ACTION ''RESET'') \<notin> set recognized_types \<and>
   AppReducer store_one (OTHER_ACTION ''RESET'') = store_one \<and>
   fst (onSubmit (\<lambda>_. NaN) (Some tx_lunch)
          \<lparr>form_text = ''dinner'', form_amount = Loaded (Fin (- 30)),
           form_category = ''Food''\<rparr>) =
     Call_updateTransaction ''a1''
       \<lparr>draft_text = ''dinner'', draft_amount = Fin (- 30), draft_category = ''Food''\<rparr>"
proof -
  have unknown: "action_type (OTHER_ACTION ''RESET'') \<notin> set recognized_types"
    by (simp add: recognized_types_def)
  have "tx_id tx_lunch = ''a1''"
    by (simp add: tx_lunch_def)
  with unknown
    submit_routing_and_default_case
      [of "\<lambda>_. NaN"
          "\<lparr>form_text = ''dinner'', form_amount = Loaded (Fin (- 30)),
            form_category = ''Food''\<rparr>"
          tx_lunch "OTHER_ACTION ''RESET''" store_one]
  show ?thesis by simp
qed

text \<open>
  Claim C9. Only \<open>SetError\<close> writes the error slot: every other transition (\<open>SetAll\<close>,
  \<open>Add\<close>, \<open>Remove\<close>, \<open>Replace\<close>, \<open>SetEditing\<close>, and an unrecognized action too) leaves
  the error field as it was, so a successful operation does not clear an error
  recorded earlier.
\<close>

theorem error_kept_by_other_transitions:
  "(\<forall>m. a \<noteq> TRANSACTION_ERROR m) \<Longrightarrow> error (AppReducer s a) = error s"
  by (cases a) simp_all

theorem error_kept_by_other_transitions_witness:
  "(\<forall>m. ADD_TRANSACTION tx_pay \<noteq> TRANSACTION_ERROR m) \<and>
   error store_one = Message ''Server Error'' \<and>
   error (addTransaction store_one draft_dinner (Resolved tx_pay)) = Message ''Server Error''"
proof -
  have other: "\<forall>m. ADD_TRANSACTION tx_pay \<noteq> TRANSACTION_ERROR m"
    by simp
  have "error store_one = Message ''Server Error''"
    by (simp add: store_one_def)
  with other error_kept_by_other_transitions [OF other, of store_one]
  show ?thesis by (simp add: addTransaction_def)
qed

text \<open>
  Claim C10. \<open>Remove(id)\<close> leaves the editing slot as it was. When the slot holds the
  transaction with the removed id, it still holds it afterwards, although no entry
  of the list has that id any more.
\<close>

theorem remove_keeps_editing:
  "editing (AppReducer s (DELETE_TRANSACTION i)) = editing s \<and>
   (editing s = Some t \<and> tx_id t = i \<longrightarrow>
      editing (AppReducer s (DELETE_TRANSACTION i)) = Some t \<and>
      (\<forall>u \<in> set (transactions (AppReducer s (DELETE_TRANSACTION i))). tx_id u \<noteq> tx_id t))"
  by simp

theorem remove_keeps_editing_witness:
  "editing store_one = Some tx_lunch \<and> tx_id tx_lunch = ''a1'' \<and>
   tx_lunch \<in> set (transactions store_one) \<and>
   editing (deleteTransaction store_one ''a1'' (Resolved ())) = Some tx_lunch \<and>
   transactions (deleteTransaction store_one ''a1'' (Resolved ())) = []"
proof -
  have slot: "editing store_one = Some tx_lunch \<and> tx_id tx_lunch = ''a1''"
    by (simp add: store_one_def tx_lunch_def)
  have "transactions store_one = [tx_lunch]"
    by (simp add: store_one_def)
  with slot remove_keeps_editing [of store_one "''a1''" tx_lunch]
  show ?thesis by (simp add: deleteTransaction_def)
qed

section \<open>Rounding\<close>

lemma ilog2_lower: "0 < x \<Longrightarrow> 2 powi (ilog2 x) \<le> x"
proof (cases "1 \<le> x")
  case True
  assume "0 < x"
  from True have pos: "0 < \<lfloor>x\<rfloor>" by simp
  from bitlen_bounds [OF pos] have "(2::int) ^ nat (bitlen \<lfloor>x\<rfloor> - 1) \<le> \<lfloor>x\<rfloor>" by simp
  then have "of_int ((2::int) ^ nat (bitlen \<lfloor>x\<rfloor> - 1)) \<le> (of_int \<lfloor>x\<rfloor> :: real)"
    by (simp only: of_int_le_iff)
  then have "(2::real) ^ nat (bitlen \<lfloor>x\<rfloor> - 1) \<le> x"
    by (simp add: le_floor_iff)
  moreover have "0 \<le> bitlen \<lfloor>x\<rfloor> - 1"
    using pos bitlen_eq_zero_iff [of "\<lfloor>x\<rfloor>"] bitlen_nonneg [of "\<lfloor>x\<rfloor>"] by linarith
  ultimately show ?thesis
    using True by (simp add: ilog2_def power_int_def)
next
  case False
  assume x: "0 < x"
  let ?m = "\<lceil>1 / x\<rceil> - 1"
  from False x have "1 < 1 / x" by simp
  then have c: "2 \<le> \<lceil>1 / x\<rceil>" by linarith
  then have pos: "0 < ?m" by simp
  from bitlen_bounds [OF pos] have "?m < 2 ^ nat (bitlen ?m)" by simp
  then have "\<lceil>1 / x\<rceil> \<le> 2 ^ nat (bitlen ?m)" by simp
  then have le: "of_int \<lceil>1 / x\<rceil> \<le> (of_int (2 ^ nat (bitlen ?m)) :: real)"
    by (simp only: of_int_le_iff)
  have "1 / x \<le> of_int \<lceil>1 / x\<rceil>"
    by (rule le_of_int_ceiling)
  also note le
  also have "(of_int (2 ^ nat (bitlen ?m)) :: real) = 2 ^ nat (bitlen ?m)"
    by simp
  finally have "1 / x \<le> 2 ^ nat (bitlen ?m)" .
  then have "1 / 2 ^ nat (bitlen ?m) \<le> x"
    using x by (simp add: field_simps)
  moreover have "0 \<le> bitlen ?m" by (rule bitlen_nonneg)
  ultimately show ?thesis
    using False by (simp add: ilog2_def power_int_minus power_int_nonneg_exp inverse_eq_divide)
qed

lemma round_half_even_error: "\<bar>of_int (round_half_even q) - q\<bar> \<le> 1 / 2"
  unfolding round_half_even_def Let_def by (auto; linarith)

lemma round_half_even_of_int: "round_half_even (of_int n) = n"
  by (simp add: round_half_even_def)

lemma round_half_even_nonneg: "0 \<le> q \<Longrightarrow> 0 \<le> round_half_even q"
  unfolding round_half_even_def Let_def by auto

lemma round_double_error:
  assumes "\<bar>x\<bar> \<le> 2 ^ 1023"
  shows "\<exists>y. round_double x = Fin y \<and> \<bar>y - x\<bar> \<le> \<bar>x\<bar> / 2 ^ 53 + 1 / 2 ^ 1075"
proof (cases "x = 0")
  case True
  then show ?thesis by (simp add: round_double_def)
next
  case False
  define a where "a = \<bar>x\<bar>"
  define e where "e = max (ilog2 a - 52) (- 1074)"
  define p :: real where "p = 2 powi e"
  define n where "n = round_half_even (a / p)"
  have a: "0 < a" using False by (simp add: a_def)
  have p: "0 < p" by (simp add: p_def)
  have "p \<le> 2 powi (ilog2 a - 52) + 2 powi (- 1074)"
    unfolding p_def e_def by (cases "ilog2 a - 52 \<le> - 1074") (simp_all add: max_def)
  also have "(2::real) powi (ilog2 a - 52) = 2 powi (ilog2 a) / 2 ^ 52"
    by (simp add: power_int_diff)
  also have "\<dots> \<le> a / 2 ^ 52"
    using ilog2_lower [OF a] by (simp add: divide_right_mono)
  finally have p_le: "p \<le> a / 2 ^ 52 + 1 / 2 ^ 1074"
    by (simp add: power_int_minus inverse_eq_divide)
  have "\<bar>of_int n - a / p\<bar> \<le> 1 / 2"
    unfolding n_def by (rule round_half_even_error)
  then have "\<bar>of_int n - a / p\<bar> * p \<le> 1 / 2 * p"
    using p by (intro mult_right_mono) simp_all
  then have "\<bar>(of_int n - a / p) * p\<bar> \<le> p / 2"
    using p by (simp add: abs_mult)
  then have near: "\<bar>of_int n * p - a\<bar> \<le> p / 2"
    using p by (simp add: algebra_simps)
  with p_le have err: "\<bar>of_int n * p - a\<bar> \<le> a / 2 ^ 53 + 1 / 2 ^ 1075"
    by simp
  have "of_int n * p \<le> a + (a / 2 ^ 53 + 1 / 2 ^ 1075)"
    using err by linarith
  also have "\<dots> < 2 ^ 1024"
    using assms by (simp add: a_def)
  finally have fin: "\<not> 2 ^ 1024 \<le> of_int n * p" by simp
  have rd: "round_double x = Fin (sgn x * (of_int n * p))"
    using False fin by (simp add: round_double_def Let_def a_def e_def p_def n_def)
  have "sgn x * (of_int n * p) - x = sgn x * (of_int n * p) - sgn x * a"
    by (simp add: a_def mult_sgn_abs)
  also have "\<dots> = sgn x * (of_int n * p - a)"
    by (simp add: right_diff_distrib)
  finally have "\<bar>sgn x * (of_int n * p) - x\<bar> = \<bar>of_int n * p - a\<bar>"
    using False by (simp add: abs_mult abs_sgn_eq)
  with err rd show ?thesis by (simp add: a_def)
qed

lemma round_double_of_int:
  assumes "\<bar>n\<bar> \<le> 2 ^ 53"
  shows "round_double (of_int n) = Fin (of_int n)"
proof (cases "n = 0")
  case True
  then show ?thesis by (simp add: round_double_def)
next
  case False
  define a :: real where "a = \<bar>of_int n\<bar>"
  define e where "e = max (ilog2 a - 52) (- 1074)"
  define p :: real where "p = 2 powi e"
  have a_int: "a = of_int \<bar>n\<bar>" by (simp add: a_def)
  have a: "0 < a" using False by (simp add: a_def)
  have a_le: "a \<le> 2 ^ 53"
    using assms unfolding a_int by (metis of_int_le_iff of_int_numeral of_int_power)
  have p: "0 < p" by (simp add: p_def)
  have k: "ilog2 a \<le> 53"
  proof (rule ccontr)
    assume "\<not> ilog2 a \<le> 53"
    then have "54 \<le> ilog2 a" by simp
    then have "(2::real) powi 54 \<le> 2 powi (ilog2 a)"
      by (intro power_int_increasing) simp_all
    also have "\<dots> \<le> a" by (rule ilog2_lower [OF a])
    finally show False using a_le by simp
  qed
  have "\<exists>m. a / p = of_int m"
  proof (cases "e \<le> 0")
    case True
    then have "p = 1 / 2 ^ nat (- e)"
      by (simp add: p_def power_int_def inverse_eq_divide power_one_over)
    then have "a / p = of_int (\<bar>n\<bar> * 2 ^ nat (- e))"
      by (simp add: a_int)
    then show ?thesis ..
  next
    case False
    with k have e1: "e = 1" by (simp add: e_def max_def split: if_splits)
    then have "ilog2 a = 53" using k by (simp add: e_def max_def split: if_splits)
    then have "2 ^ 53 \<le> a" using ilog2_lower [OF a] by simp
    with a_le have "a = 2 ^ 53" by simp
    then have "a / p = of_int (2 ^ 52)" by (simp add: p_def e1)
    then show ?thesis ..
  qed
  then obtain m where m: "a / p = of_int m" ..
  then have "of_int (round_half_even (a / p)) * p = a"
    using p by (simp add: round_half_even_of_int field_simps)
  moreover have "a < 2 ^ 1024" using a_le by simp
  ultimately have "round_double (of_int n) = Fin (sgn (of_int n) * a)"
    using False by (simp add: round_double_def Let_def a_def e_def p_def)
  then show ?thesis by (simp add: a_def mult_sgn_abs)
qed

lemma growth_bound:
  fixes u :: real
  assumes "0 \<le> u" "2 * real n * u \<le> 1"
  shows "(1 + u) ^ n \<le> 1 + 2 * real n * u"
  using assms
proof (induction n)
  case 0
  then show ?case by simp
next
  case (Suc n)
  have small: "2 * real n * u \<le> 1"
    using Suc.prems by (simp add: algebra_simps) 
  with Suc have ih: "(1 + u) ^ n \<le> 1 + 2 * real n * u" by simp
  have "(1 + u) ^ Suc n = (1 + u) ^ n * (1 + u)" by simp
  also have "\<dots> \<le> (1 + 2 * real n * u) * (1 + u)"
    using ih Suc.prems(1) by (intro mult_right_mono) simp_all
  also have "\<dots> = 1 + 2 * real n * u + u + (2 * real n * u) * u"
    by (simp add: algebra_simps)
  also have "\<dots> \<le> 1 + 2 * real n * u + u + 1 * u"
    using small Suc.prems(1) by (intro add_left_mono mult_right_mono) simp_all
  also have "\<dots> = 1 + 2 * real (Suc n) * u"
    by (simp add: algebra_simps)
  finally show ?case .
qed

lemma unit_roundoff_pos: "0 < unit_roundoff"
  by (simp add: unit_roundoff_def)

lemma underflow_unit_pos: "0 < underflow_unit"
  by (simp add: underflow_unit_def)

lemma round_double_relative_error:
  assumes "\<bar>x\<bar> \<le> 2 ^ 1023"
  shows "\<exists>y. round_double x = Fin y \<and>
             \<bar>y - x\<bar> \<le> unit_roundoff * \<bar>x\<bar> + unit_roundoff * underflow_unit"
proof -
  from round_double_error [OF assms]
  obtain y where y: "round_double x = Fin y"
    and err: "\<bar>y - x\<bar> \<le> \<bar>x\<bar> / 2 ^ 53 + 1 / 2 ^ 1075"
    by blast
  have "\<bar>x\<bar> / 2 ^ 53 + 1 / 2 ^ 1075 =
        unit_roundoff * \<bar>x\<bar> + unit_roundoff * underflow_unit"
    by (simp add: unit_roundoff_def underflow_unit_def)
  with err have "\<bar>y - x\<bar> \<le> unit_roundoff * \<bar>x\<bar> + unit_roundoff * underflow_unit"
    by (simp only:)
  with y show ?thesis by blast
qed

lemma round_double_nonneg:
  assumes "0 \<le> x" "round_double x = Fin y"
  shows "0 \<le> y"
proof (cases "x = 0")
  case True
  with assms show ?thesis by (simp add: round_double_def)
next
  case False
  with assms(1) have pos: "0 < x" by simp
  define e where "e = max (ilog2 \<bar>x\<bar> - 52) (- 1074)"
  define n where "n = round_half_even (\<bar>x\<bar> / 2 powi e)"
  have "0 \<le> \<bar>x\<bar> / 2 powi e" by simp
  then have "0 \<le> n" unfolding n_def by (rule round_half_even_nonneg)
  then have "0 \<le> sgn x * (of_int n * 2 powi e)" using pos by simp
  moreover have "y = sgn x * (of_int n * 2 powi e)"
    using assms(2) False by (simp add: round_double_def Let_def e_def n_def split: if_splits)
  ultimately show ?thesis by simp
qed

lemma accumulate_error:
  fixes m :: "'s \<Rightarrow> real" and val :: "'x \<Rightarrow> real"
  assumes step: "\<And>st x. I st \<Longrightarrow> ok x \<Longrightarrow> \<bar>m st + val x\<bar> \<le> 2 ^ 1023 \<Longrightarrow>
      I (f st x) \<and>
      \<bar>m (f st x) - (m st + val x)\<bar>
        \<le> unit_roundoff * \<bar>m st + val x\<bar> + unit_roundoff * underflow_unit"
    and "I st" "list_all ok xs"
    and "(1 + unit_roundoff) ^ length xs * (\<bar>m st\<bar> + underflow_unit + sum_list (map (\<lambda>x. \<bar>val x\<bar>) xs))
           \<le> 2 ^ 1023"
  shows "I (foldl f st xs) \<and>
         \<bar>m (foldl f st xs) - (m st + sum_list (map val xs))\<bar>
           \<le> ((1 + unit_roundoff) ^ length xs - 1) *
              (\<bar>m st\<bar> + underflow_unit + sum_list (map (\<lambda>x. \<bar>val x\<bar>) xs))"
  using assms(2-)
proof (induction xs arbitrary: st)
  case Nil
  then show ?case by simp
next
  case (Cons x xs)
  define u where "u = unit_roundoff"
  define c where "c = underflow_unit"
  define g where "g = (1 + u) ^ length xs"
  define A where "A = sum_list (map (\<lambda>x. \<bar>val x\<bar>) xs)"
  define s where "s = m st"
  define a where "a = val x"
  define B where "B = \<bar>s\<bar> + \<bar>a\<bar> + c"
  have u: "0 < u" and c: "0 < c"
    by (simp_all add: u_def c_def unit_roundoff_pos underflow_unit_pos)
  have g: "1 \<le> g" unfolding g_def using u by (intro one_le_power) simp
  have A: "0 \<le> A" unfolding A_def by (induction xs) simp_all
  have B: "0 < B" unfolding B_def using c by linarith
  have prem: "(1 + u) * g * (B + A) \<le> 2 ^ 1023"
    using Cons.prems(3) by (simp add: u_def c_def g_def A_def B_def s_def a_def algebra_simps)
  have BA: "B + A \<le> (1 + u) * g * (B + A)"
  proof -
    have "1 * 1 \<le> (1 + u) * g" using u g by (intro mult_mono) simp_all
    then have "1 * (B + A) \<le> (1 + u) * g * (B + A)"
      using A B by (intro mult_right_mono) simp_all
    then show ?thesis by simp
  qed
  have sa: "\<bar>s + a\<bar> \<le> \<bar>s\<bar> + \<bar>a\<bar>" by (rule abs_triangle_ineq)
  have "\<bar>s + a\<bar> \<le> B + A" using sa A c by (simp add: B_def)
  with BA prem have "\<bar>m st + val x\<bar> \<le> 2 ^ 1023" unfolding s_def a_def by linarith
  moreover have "ok x" and oks: "list_all ok xs" using Cons.prems(2) by simp_all
  ultimately have I1: "I (f st x)"
    and e1: "\<bar>m (f st x) - (s + a)\<bar> \<le> u * \<bar>s + a\<bar> + u * c"
    using step [OF Cons.prems(1)] unfolding u_def c_def s_def a_def by blast+
  define s1 where "s1 = m (f st x)"
  have usa: "u * \<bar>s + a\<bar> \<le> u * (\<bar>s\<bar> + \<bar>a\<bar>)"
    using sa u by (intro mult_left_mono) simp_all
  have e1': "\<bar>s1 - (s + a)\<bar> \<le> u * B"
    using e1 usa by (simp add: B_def s1_def algebra_simps)
  have s1B: "\<bar>s1\<bar> + c \<le> (1 + u) * B"
  proof -
    have "\<bar>s1\<bar> \<le> \<bar>s + a\<bar> + \<bar>s1 - (s + a)\<bar>" by linarith
    also have "\<dots> \<le> (\<bar>s\<bar> + \<bar>a\<bar>) + (u * (\<bar>s\<bar> + \<bar>a\<bar>) + u * c)"
      using sa e1 usa unfolding s1_def by linarith
    finally have "\<bar>s1\<bar> + c \<le> (\<bar>s\<bar> + \<bar>a\<bar> + c) + u * (\<bar>s\<bar> + \<bar>a\<bar> + c)"
      by (simp add: algebra_simps)
    then show ?thesis by (simp add: B_def algebra_simps)
  qed
  have uA: "A \<le> (1 + u) * A"
  proof -
    have "1 * A \<le> (1 + u) * A" using u A by (intro mult_right_mono) simp_all
    then show ?thesis by simp
  qed
  have stp: "\<bar>s1\<bar> + c + A \<le> (1 + u) * B + A" using s1B by simp
  have "g * (\<bar>s1\<bar> + c + A) \<le> g * ((1 + u) * B + (1 + u) * A)"
    using stp uA g by (intro mult_left_mono) simp_all
  also have "\<dots> = (1 + u) * g * (B + A)" by (simp add: algebra_simps)
  finally have "g * (\<bar>s1\<bar> + c + A) \<le> 2 ^ 1023" using prem by simp
  then have "(1 + unit_roundoff) ^ length xs *
               (\<bar>m (f st x)\<bar> + underflow_unit + sum_list (map (\<lambda>x. \<bar>val x\<bar>) xs)) \<le> 2 ^ 1023"
    by (simp add: g_def u_def c_def A_def s1_def)
  from Cons.IH [OF I1 oks this]
  have I': "I (foldl f (f st x) xs)"
    and e': "\<bar>m (foldl f (f st x) xs) - (s1 + sum_list (map val xs))\<bar>
               \<le> (g - 1) * (\<bar>s1\<bar> + c + A)"
    unfolding g_def u_def c_def A_def s1_def by blast+
  define s' where "s' = m (foldl f (f st x) xs)"
  have "(g - 1) * (\<bar>s1\<bar> + c + A) \<le> (g - 1) * ((1 + u) * B + A)"
    using stp g by (intro mult_left_mono) simp_all
  with e' have e'': "\<bar>s' - (s1 + sum_list (map val xs))\<bar> \<le> (g - 1) * ((1 + u) * B + A)"
    unfolding s'_def by linarith
  have "\<bar>s' - (s + sum_list (map val (x # xs)))\<bar>
          \<le> \<bar>s' - (s1 + sum_list (map val xs))\<bar> + \<bar>s1 - (s + a)\<bar>"
    by (simp add: a_def)
  also have "\<dots> \<le> (g - 1) * ((1 + u) * B + A) + u * B"
    using e'' e1' by linarith
  also have "\<dots> \<le> (g - 1) * ((1 + u) * B + A) + u * B + u * g * A"
    using u g A by simp
  also have "\<dots> = ((1 + u) * g - 1) * (B + A)"
    by (simp add: algebra_simps)
  finally have "\<bar>s' - (s + sum_list (map val (x # xs)))\<bar> \<le> ((1 + u) * g - 1) * (B + A)" .
  then have "\<bar>m (foldl f st (x # xs)) - (m st + sum_list (map val (x # xs)))\<bar>
               \<le> ((1 + unit_roundoff) ^ length (x # xs) - 1) *
                  (\<bar>m st\<bar> + underflow_unit + sum_list (map (\<lambda>x. \<bar>val x\<bar>) (x # xs)))"
    by (simp add: g_def u_def c_def A_def B_def s_def a_def s'_def algebra_simps)
  with I' show ?case by simp
qed

lemma fold_add_error:
  fixes xs :: "real list"
  assumes "(1 + unit_roundoff) ^ length xs * (\<bar>s\<bar> + underflow_unit + sum_list (map abs xs))
             \<le> 2 ^ 1023"
  shows "\<exists>s'. foldl (\<lambda>acc a. js_add acc (Fin a)) (Fin s) xs = Fin s' \<and>
              \<bar>s' - (s + sum_list xs)\<bar>
                \<le> ((1 + unit_roundoff) ^ length xs - 1) *
                   (\<bar>s\<bar> + underflow_unit + sum_list (map abs xs))"
proof -
  have step: "is_finite (js_add st (Fin a)) \<and>
      \<bar>value_of (js_add st (Fin a)) - (value_of st + a)\<bar>
        \<le> unit_roundoff * \<bar>value_of st + a\<bar> + unit_roundoff * underflow_unit"
    if "is_finite st" "True" "\<bar>value_of st + a\<bar> \<le> 2 ^ 1023" for st a
  proof -
    from that(1) obtain s where st: "st = Fin s" by (cases st) simp_all
    from round_double_relative_error [of "s + a"] that(3) st
    show ?thesis by auto
  qed
  have "list_all (\<lambda>_. True) xs" by (simp add: list_all_iff)
  from accumulate_error [of is_finite "\<lambda>_. True" value_of "\<lambda>a. a" "\<lambda>acc a. js_add acc (Fin a)",
      OF step _ this, of "Fin s"] assms
  have fin: "is_finite (foldl (\<lambda>acc a. js_add acc (Fin a)) (Fin s) xs)"
    and err: "\<bar>value_of (foldl (\<lambda>acc a. js_add acc (Fin a)) (Fin s) xs) - (s + sum_list xs)\<bar>
       \<le> ((1 + unit_roundoff) ^ length xs - 1) *
                   (\<bar>s\<bar> + underflow_unit + sum_list (map abs xs))"
    by simp_all
  from fin obtain s' where "foldl (\<lambda>acc a. js_add acc (Fin a)) (Fin s) xs = Fin s'"
    by (cases "foldl (\<lambda>acc a. js_add acc (Fin a)) (Fin s) xs") simp_all
  with err show ?thesis by simp
qed

lemma sum_list_map_uminus:
  "sum_list (map (\<lambda>t. - f t) ts) = - sum_list (map f ts :: real list)"
  by (induction ts) simp_all

lemma abs_total_nonneg: "0 \<le> abs_total ts"
  unfolding abs_total_def by (induction ts) simp_all

lemma underflow_unit_le_1: "underflow_unit \<le> 1"
  by (simp add: underflow_unit_def divide_le_eq_1)

lemma sum_list_abs_nonneg: "0 \<le> sum_list (map abs (xs :: real list))"
  by (induction xs) simp_all

lemma sum_error_bounded:
  fixes xs :: "real list"
  assumes len: "length xs \<le> n" and tot: "sum_list (map abs xs) \<le> M"
    and small: "2 * real n * unit_roundoff \<le> 1" and big: "2 * (M + 1) \<le> 2 ^ 1023"
  shows "\<exists>s'. foldl (\<lambda>acc a. js_add acc (Fin a)) (Fin 0) xs = Fin s' \<and>
              \<bar>s' - sum_list xs\<bar> \<le> 2 * real n * unit_roundoff * (M + 1)"
proof -
  define u where "u = unit_roundoff"
  define c where "c = underflow_unit"
  define g where "g = (1 + u) ^ length xs"
  define A where "A = sum_list (map abs xs)"
  have u: "0 < u" and c: "0 < c" and c1: "c \<le> 1"
    by (simp_all add: u_def c_def unit_roundoff_pos underflow_unit_pos underflow_unit_le_1)
  have A: "0 \<le> A" unfolding A_def by (rule sum_list_abs_nonneg)
  have "real (length xs) \<le> real n" using len by simp
  then have "(2 * real (length xs)) * u \<le> (2 * real n) * u"
    using u by (intro mult_right_mono) simp_all
  then have nu: "2 * real (length xs) * u \<le> 2 * real n * u" by simp
  with small have small': "2 * real (length xs) * u \<le> 1" unfolding u_def by linarith
  have "g \<le> 1 + 2 * real (length xs) * u"
    unfolding g_def using u small' by (intro growth_bound) simp_all
  with nu have g_le: "g \<le> 1 + 2 * real n * u" by linarith
  have g1: "1 \<le> g" unfolding g_def using u by (intro one_le_power) simp
  have g2: "g \<le> 2" using g_le small unfolding u_def by linarith
  have cA: "c + A \<le> M + 1" using c1 tot by (simp add: A_def)
  have cA0: "0 \<le> c + A" using c A by simp
  have "g * (c + A) \<le> 2 * (M + 1)"
    using g2 cA cA0 g1 by (intro mult_mono) simp_all
  with big have "(1 + unit_roundoff) ^ length xs * (\<bar>0\<bar> + underflow_unit + sum_list (map abs xs))
                  \<le> 2 ^ 1023"
    by (simp add: g_def u_def c_def A_def)
  from fold_add_error [OF this]
  obtain s' where s': "foldl (\<lambda>acc a. js_add acc (Fin a)) (Fin 0) xs = Fin s'"
    and e: "\<bar>s' - sum_list xs\<bar> \<le> (g - 1) * (c + A)"
    unfolding g_def u_def c_def A_def by auto
  have "0 \<le> 2 * real n * u" using u by simp
  then have "(g - 1) * (c + A) \<le> (2 * real n * u) * (M + 1)"
    using g_le g1 cA cA0 by (intro mult_mono) simp_all
  with e have "\<bar>s' - sum_list xs\<bar> \<le> 2 * real n * unit_roundoff * (M + 1)"
    by (simp add: u_def)
  with s' show ?thesis by blast
qed

lemma foldl_amounts:
  "list_all (\<lambda>t. is_finite (amount t)) txs \<Longrightarrow>
   foldl (\<lambda>acc item. js_add acc (amount item)) acc txs =
   foldl (\<lambda>acc a. js_add acc (Fin a)) acc (map (\<lambda>t. value_of (amount t)) txs)"
proof (induction txs arbitrary: acc)
  case Nil
  then show ?case by simp
next
  case (Cons t txs)
  then obtain a where "amount t = Fin a" by (cases "amount t") simp_all
  with Cons show ?case by simp
qed

lemma sum_list_split_sign:
  "sum_list (xs :: real list) = sum_list (filter (\<lambda>a. 0 < a) xs) + sum_list (filter (\<lambda>a. a < 0) xs)"
  by (induction xs) auto

lemma sum_list_abs_filter:
  "sum_list (map abs (filter P (xs :: real list))) \<le> sum_list (map abs xs)"
  by (induction xs) auto

lemma filter_positive_amounts:
  "list_all (\<lambda>t. is_finite (amount t)) txs \<Longrightarrow>
   map (\<lambda>t. value_of (amount t)) (filter (\<lambda>item. js_gt (amount item) (Fin 0)) txs) =
   filter (\<lambda>a. 0 < a) (map (\<lambda>t. value_of (amount t)) txs)"
proof (induction txs)
  case Nil
  then show ?case by simp
next
  case (Cons t txs)
  then obtain a where "amount t = Fin a" by (cases "amount t") simp_all
  with Cons show ?case by (simp add: js_gt_def)
qed

lemma filter_negative_amounts:
  "list_all (\<lambda>t. is_finite (amount t)) txs \<Longrightarrow>
   map (\<lambda>t. value_of (amount t)) (filter (\<lambda>item. js_lt (amount item) (Fin 0)) txs) =
   filter (\<lambda>a. a < 0) (map (\<lambda>t. value_of (amount t)) txs)"
proof (induction txs)
  case Nil
  then show ?case by simp
next
  case (Cons t txs)
  then obtain a where "amount t = Fin a" by (cases "amount t") simp_all
  with Cons show ?case by simp
qed

lemma list_all_filter: "list_all P xs \<Longrightarrow> list_all P (filter Q xs)"
  by (induction xs) auto

lemma abs_sum_list_le: "\<bar>sum_list (xs :: real list)\<bar> \<le> sum_list (map abs xs)"
  by (induction xs) auto

lemma round_double_Ints:
  assumes "x \<in> \<int>" "\<bar>x\<bar> \<le> 2 ^ 53"
  shows "round_double x = Fin x"
proof -
  from assms(1) obtain n where n: "x = of_int n" by (rule Ints_cases)
  with assms(2) have "(of_int \<bar>n\<bar> :: real) \<le> of_int (2 ^ 53)" by simp
  then have "\<bar>n\<bar> \<le> 2 ^ 53" by (simp only: of_int_le_iff)
  then show ?thesis unfolding n by (rule round_double_of_int)
qed

lemma is_integer_iff: "is_integer v = (\<exists>a. v = Fin a \<and> a \<in> \<int>)"
  by (cases v) (auto simp: Ints_def intro: sym)

lemma fold_add_exact:
  fixes xs :: "real list"
  assumes "s \<in> \<int>" "\<forall>x \<in> set xs. x \<in> \<int>" "\<bar>s\<bar> + sum_list (map abs xs) \<le> 2 ^ 53"
  shows "foldl (\<lambda>acc a. js_add acc (Fin a)) (Fin s) xs = Fin (s + sum_list xs)"
  using assms
proof (induction xs arbitrary: s)
  case Nil
  then show ?case by simp
next
  case (Cons a xs)
  have nn: "0 \<le> sum_list (map abs xs)" by (rule sum_list_abs_nonneg)
  have int: "s + a \<in> \<int>" using Cons.prems by simp
  have "\<bar>s + a\<bar> \<le> \<bar>s\<bar> + \<bar>a\<bar>" by (rule abs_triangle_ineq)
  with Cons.prems nn have le: "\<bar>s + a\<bar> + sum_list (map abs xs) \<le> 2 ^ 53" by simp
  with nn have "\<bar>s + a\<bar> \<le> 2 ^ 53" by linarith
  with int have "round_double (s + a) = Fin (s + a)" by (rule round_double_Ints)
  moreover have "foldl (\<lambda>acc a. js_add acc (Fin a)) (Fin (s + a)) xs = Fin (s + a + sum_list xs)"
    using Cons.prems int le by (intro Cons.IH) simp_all
  ultimately show ?case by (simp add: add.assoc)
qed

lemma whole_slices_total_nonneg: "whole_slices acc \<Longrightarrow> 0 \<le> slices_total acc"
  by (induction acc) (simp_all add: whole_slices_def slices_total_def)

lemma whole_slices_total_Ints: "whole_slices acc \<Longrightarrow> slices_total acc \<in> \<int>"
  by (induction acc) (auto simp: whole_slices_def slices_total_def is_integer_iff)

lemma add_to_existing_whole:
  assumes "whole_slices acc" "d \<in> \<int>" "0 \<le> d" "slices_total acc + d \<le> 2 ^ 53"
    and "\<exists>item \<in> set acc. slice_name item = cat"
  shows "whole_slices (add_to_existing cat (Fin d) acc) \<and>
         slices_total (add_to_existing cat (Fin d) acc) = slices_total acc + d"
  using assms
proof (induction acc)
  case Nil
  then show ?case by simp
next
  case (Cons item rest)
  from Cons.prems(1) obtain x where x: "slice_value item = Fin x" "x \<in> \<int>" "0 \<le> x"
    and rest: "whole_slices rest"
    by (auto simp: whole_slices_def is_integer_iff)
  have rest0: "0 \<le> slices_total rest" using rest by (rule whole_slices_total_nonneg)
  have total: "slices_total (item # rest) = x + slices_total rest"
    using x by (simp add: slices_total_def)
  show ?case
  proof (cases "slice_name item = cat")
    case True
    have "x + d \<in> \<int>" using x Cons.prems(2) by simp
    moreover have "\<bar>x + d\<bar> \<le> 2 ^ 53"
      using x Cons.prems(3,4) rest0 total by simp
    ultimately have "round_double (x + d) = Fin (x + d)" by (rule round_double_Ints)
    then show ?thesis
      using True x rest Cons.prems(2,3) total
      by (simp add: whole_slices_def slices_total_def is_integer_iff)
  next
    case False
    with Cons.prems(5) have ex: "\<exists>item \<in> set rest. slice_name item = cat" by auto
    have "slices_total rest + d \<le> 2 ^ 53" using Cons.prems(4) total x by simp
    from Cons.IH [OF rest Cons.prems(2,3) this ex] False x total
    show ?thesis
      by (simp add: whole_slices_def slices_total_def is_integer_iff)
  qed
qed

lemma SpendingChart_step_whole:
  assumes "whole_slices acc" "amount t = Fin a" "a \<in> \<int>"
    and "slices_total acc + \<bar>a\<bar> \<le> 2 ^ 53"
  shows "whole_slices (SpendingChart_step acc t) \<and>
         slices_total (SpendingChart_step acc t) = slices_total acc + \<bar>a\<bar>"
proof (cases "find (\<lambda>item. slice_name item = category_or_Other t) acc")
  case None
  then show ?thesis
    using assms
    by (simp add: SpendingChart_step_def whole_slices_def slices_total_def is_integer_iff)
next
  case (Some existing)
  then have "\<exists>item \<in> set acc. slice_name item = category_or_Other t"
    by (auto simp: find_Some_iff)
  from add_to_existing_whole [OF assms(1) _ _ assms(4) this] assms(2,3) Some
  show ?thesis by (simp add: SpendingChart_step_def)
qed

lemma foldl_SpendingChart_step_whole:
  assumes "whole_slices acc" "list_all (\<lambda>t. is_integer (amount t)) ts"
    and "slices_total acc + abs_total ts \<le> 2 ^ 53"
  shows "whole_slices (foldl SpendingChart_step acc ts) \<and>
         slices_total (foldl SpendingChart_step acc ts) = slices_total acc + abs_total ts"
  using assms
proof (induction ts arbitrary: acc)
  case Nil
  then show ?case by (simp add: abs_total_def)
next
  case (Cons t ts)
  from Cons.prems(2) obtain a where a: "amount t = Fin a" "a \<in> \<int>"
    and ts: "list_all (\<lambda>t. is_integer (amount t)) ts"
    by (auto simp: is_integer_iff)
  have tot: "abs_total (t # ts) = \<bar>a\<bar> + abs_total ts"
    using a by (simp add: abs_total_def)
  have "0 \<le> abs_total ts"
    by (rule abs_total_nonneg)
  with Cons.prems(3) tot have "slices_total acc + \<bar>a\<bar> \<le> 2 ^ 53" by simp
  from SpendingChart_step_whole [OF Cons.prems(1) a this]
  have step: "whole_slices (SpendingChart_step acc t)"
    "slices_total (SpendingChart_step acc t) = slices_total acc + \<bar>a\<bar>"
    by simp_all
  have "slices_total (SpendingChart_step acc t) + abs_total ts \<le> 2 ^ 53"
    using step(2) Cons.prems(3) tot by simp
  from Cons.IH [OF step(1) ts this] step(2) tot
  show ?case by simp
qed

lemma foldl_slices:
  "whole_slices slices \<Longrightarrow>
   foldl (\<lambda>acc item. js_add acc (slice_value item)) acc slices =
   foldl (\<lambda>acc a. js_add acc (Fin a)) acc (map (\<lambda>item. value_of (slice_value item)) slices)"
proof (induction slices arbitrary: acc)
  case Nil
  then show ?case by simp
next
  case (Cons item slices)
  then obtain x where "slice_value item = Fin x"
    by (auto simp: whole_slices_def is_integer_iff)
  with Cons show ?case by (simp add: whole_slices_def)
qed

lemma sum_whole_slices:
  assumes "whole_slices slices" "slices_total slices \<le> 2 ^ 53"
  shows "foldl (\<lambda>acc item. js_add acc (slice_value item)) (Fin 0) slices = Fin (slices_total slices)"
proof -
  let ?xs = "map (\<lambda>item. value_of (slice_value item)) slices"
  have ints: "\<forall>x \<in> set ?xs. x \<in> \<int>"
    using assms(1) by (auto simp: whole_slices_def list_all_iff is_integer_iff)
  have eq: "map abs ?xs = ?xs"
    using assms(1) by (auto simp: whole_slices_def list_all_iff)
  have "sum_list (map abs ?xs) = slices_total slices"
    by (simp only: eq slices_total_def)
  with assms(2) have "\<bar>0\<bar> + sum_list (map abs ?xs) \<le> 2 ^ 53"
    by linarith
  from fold_add_exact [OF _ ints this]
  show ?thesis
    by (simp add: foldl_slices [OF assms(1)] slices_total_def)
qed

lemma abs_total_Ints:
  "list_all (\<lambda>t. is_integer (amount t)) ts \<Longrightarrow> abs_total ts \<in> \<int>"
  by (induction ts) (auto simp: abs_total_def is_integer_iff)

lemma is_integer_finite: "is_integer v \<Longrightarrow> is_finite v"
  by (cases v) simp_all

text \<open>Evaluation of \<open>round_double\<close> on a numeral.\<close>

lemmas round_eval = round_double_def ilog2_def round_half_even_def compute_bitlen Let_def

section \<open>The chart's accumulation\<close>

text \<open>
  Two facts about the chart's total and the expense total: they are equal where no
  addition rounds, and close where the amounts are of everyday size.
\<close>

lemma breakdown_sum_exact_for_integers:
  assumes ints: "list_all (\<lambda>t. is_integer (amount t)) (expenses txs)"
    and tot: "abs_total (expenses txs) \<le> 9007199254740992"
  shows "SpendingChart_totalExpense txs = IncomeExpenses_expense txs \<and>
         IncomeExpenses_expense txs = Fin (abs_total (expenses txs))"
proof -
  let ?ex = "expenses txs"
  let ?xs = "map (\<lambda>t. value_of (amount t)) ?ex"
  have tot': "abs_total ?ex \<le> 2 ^ 53" using tot by simp
  have fin: "list_all (\<lambda>t. is_finite (amount t)) ?ex"
    using ints by (auto simp: list_all_iff is_integer_finite)
  \<comment> \<open>the chart\<close>
  have empty: "whole_slices []" "slices_total [] = 0"
    by (simp_all add: whole_slices_def slices_total_def)
  from foldl_SpendingChart_step_whole [OF empty(1) ints] tot' empty(2)
  have data: "whole_slices (SpendingChart_data txs)"
    "slices_total (SpendingChart_data txs) = abs_total ?ex"
    by (simp_all add: SpendingChart_data_def expenses_def)
  from sum_whole_slices [OF data(1)] data(2) tot'
  have chart: "SpendingChart_totalExpense txs = Fin (abs_total ?ex)"
    by (simp add: SpendingChart_totalExpense_def)
  \<comment> \<open>the expense total\<close>
  have ints_xs: "\<forall>x \<in> set ?xs. x \<in> \<int>"
    using ints by (auto simp: list_all_iff is_integer_iff)
  have "sum_list (map abs ?xs) = abs_total ?ex"
    by (simp add: abs_total_def comp_def)
  with tot' have "\<bar>0\<bar> + sum_list (map abs ?xs) \<le> 2 ^ 53" by linarith
  from fold_add_exact [OF _ ints_xs this]
  have "foldl (\<lambda>acc a. js_add acc (Fin a)) (Fin 0) ?xs = Fin (sum_list ?xs)" by simp
  moreover have "sum_list ?xs = - abs_total ?ex"
  proof -
    have "\<forall>t \<in> set ?ex. value_of (amount t) < 0"
    proof
      fix t assume t: "t \<in> set ?ex"
      with fin obtain a where "amount t = Fin a"
        by (cases "amount t") (auto simp: list_all_iff)
      with t show "value_of (amount t) < 0" by (simp add: expenses_def)
    qed
    then have "map (\<lambda>t. \<bar>value_of (amount t)\<bar>) ?ex = map (\<lambda>t. - value_of (amount t)) ?ex"
      by (intro map_cong) auto
    then have "abs_total ?ex = sum_list (map (\<lambda>t. - value_of (amount t)) ?ex)"
      by (simp only: abs_total_def)
    also have "\<dots> = - sum_list ?xs"
      by (rule sum_list_map_uminus)
    finally show ?thesis by simp
  qed
  ultimately have inner:
    "foldl (\<lambda>acc item. js_add acc (amount item)) (Fin 0) ?ex = Fin (- abs_total ?ex)"
    by (simp add: foldl_amounts [OF fin])
  have "abs_total ?ex \<in> \<int>" using ints by (rule abs_total_Ints)
  moreover have "0 \<le> abs_total ?ex"
    by (rule abs_total_nonneg)
  ultimately have "round_double (abs_total ?ex) = Fin (abs_total ?ex)"
    using tot' by (intro round_double_Ints) simp_all
  with inner have "IncomeExpenses_expense txs = Fin (abs_total ?ex)"
    by (simp add: IncomeExpenses_expense_def expenses_def [symmetric])
  with chart show ?thesis by simp
qed

lemma finite_slices_total_nonneg: "finite_slices acc \<Longrightarrow> 0 \<le> slices_total acc"
  by (induction acc) (simp_all add: finite_slices_def slices_total_def)

lemma add_to_existing_finite:
  assumes "finite_slices acc" "0 \<le> d" "slices_total acc + d \<le> 2 ^ 1023"
    and "\<exists>item \<in> set acc. slice_name item = cat"
  shows "finite_slices (add_to_existing cat (Fin d) acc) \<and>
         \<bar>slices_total (add_to_existing cat (Fin d) acc) - (slices_total acc + d)\<bar>
           \<le> unit_roundoff * (slices_total acc + d) + unit_roundoff * underflow_unit"
  using assms
proof (induction acc)
  case Nil
  then show ?case by simp
next
  case (Cons item rest)
  from Cons.prems(1) obtain x where x: "slice_value item = Fin x" "0 \<le> x"
    and rest: "finite_slices rest"
    by (cases "slice_value item") (auto simp: finite_slices_def)
  have rest0: "0 \<le> slices_total rest" using rest by (rule finite_slices_total_nonneg)
  have total: "slices_total (item # rest) = x + slices_total rest"
    using x by (simp add: slices_total_def)
  have u: "0 < unit_roundoff" by (rule unit_roundoff_pos)
  show ?case
  proof (cases "slice_name item = cat")
    case True
    have le: "x + d \<le> slices_total (item # rest) + d" using total rest0 by simp
    have "\<bar>x + d\<bar> \<le> 2 ^ 1023"
      using x Cons.prems(2,3) le by simp
    from round_double_relative_error [OF this]
    obtain y where y: "round_double (x + d) = Fin y"
      and ey: "\<bar>y - (x + d)\<bar> \<le> unit_roundoff * \<bar>x + d\<bar> + unit_roundoff * underflow_unit"
      by blast
    have y0: "0 \<le> y" using round_double_nonneg [OF _ y] x Cons.prems(2) by simp
    have "unit_roundoff * \<bar>x + d\<bar> \<le> unit_roundoff * (slices_total (item # rest) + d)"
      using le x Cons.prems(2) u by (intro mult_left_mono) simp_all
    with ey have "\<bar>y - (x + d)\<bar>
        \<le> unit_roundoff * (slices_total (item # rest) + d) + unit_roundoff * underflow_unit"
      by linarith
    moreover have "slices_total (add_to_existing cat (Fin d) (item # rest)) =
        y + slices_total rest"
      using True x y by (simp add: slices_total_def)
    moreover have "finite_slices (add_to_existing cat (Fin d) (item # rest))"
      using True x y y0 rest by (simp add: finite_slices_def)
    ultimately show ?thesis using total by simp
  next
    case False
    with Cons.prems(4) have ex: "\<exists>item \<in> set rest. slice_name item = cat" by auto
    have le: "slices_total rest + d \<le> slices_total (item # rest) + d" using total x by simp
    with Cons.prems(3) have "slices_total rest + d \<le> 2 ^ 1023" by linarith
    from Cons.IH [OF rest Cons.prems(2) this ex]
    have fin: "finite_slices (add_to_existing cat (Fin d) rest)"
      and err: "\<bar>slices_total (add_to_existing cat (Fin d) rest) - (slices_total rest + d)\<bar>
           \<le> unit_roundoff * (slices_total rest + d) + unit_roundoff * underflow_unit"
      by simp_all
    have "unit_roundoff * (slices_total rest + d)
            \<le> unit_roundoff * (slices_total (item # rest) + d)"
      using le u by (intro mult_left_mono) simp_all
    with err have "\<bar>slices_total (add_to_existing cat (Fin d) rest) - (slices_total rest + d)\<bar>
           \<le> unit_roundoff * (slices_total (item # rest) + d) + unit_roundoff * underflow_unit"
      by linarith
    moreover have "slices_total (add_to_existing cat (Fin d) (item # rest)) =
        x + slices_total (add_to_existing cat (Fin d) rest)"
      using False x by (simp add: slices_total_def)
    moreover have "finite_slices (add_to_existing cat (Fin d) (item # rest))"
      using False x fin by (simp add: finite_slices_def)
    ultimately show ?thesis using total by simp
  qed
qed

lemma SpendingChart_step_finite:
  assumes "finite_slices acc" "is_finite (amount t)"
    and "\<bar>slices_total acc + \<bar>value_of (amount t)\<bar>\<bar> \<le> 2 ^ 1023"
  shows "finite_slices (SpendingChart_step acc t) \<and>
         \<bar>slices_total (SpendingChart_step acc t) - (slices_total acc + \<bar>value_of (amount t)\<bar>)\<bar>
           \<le> unit_roundoff * \<bar>slices_total acc + \<bar>value_of (amount t)\<bar>\<bar> +
              unit_roundoff * underflow_unit"
proof -
  from assms(2) obtain a where a: "amount t = Fin a" by (cases "amount t") simp_all
  have nn: "0 \<le> slices_total acc + \<bar>a\<bar>"
    using finite_slices_total_nonneg [OF assms(1)] by simp
  have uc: "0 \<le> unit_roundoff * (slices_total acc + \<bar>a\<bar>) + unit_roundoff * underflow_unit"
    using nn unit_roundoff_pos underflow_unit_pos by simp
  show ?thesis
  proof (cases "find (\<lambda>item. slice_name item = category_or_Other t) acc")
    case None
    then show ?thesis
      using assms(1) a nn uc
      by (simp add: SpendingChart_step_def finite_slices_def slices_total_def)
  next
    case (Some existing)
    then have ex: "\<exists>item \<in> set acc. slice_name item = category_or_Other t"
      by (auto simp: find_Some_iff)
    have "slices_total acc + \<bar>a\<bar> \<le> 2 ^ 1023" using assms(3) a nn by simp
    from add_to_existing_finite [OF assms(1) _ this ex] a nn Some
    show ?thesis by (simp add: SpendingChart_step_def)
  qed
qed

lemma length_add_to_existing: "length (add_to_existing cat v acc) = length acc"
  by (induction acc) simp_all

lemma length_SpendingChart_step: "length (SpendingChart_step acc t) \<le> Suc (length acc)"
  by (simp add: SpendingChart_step_def Let_def length_add_to_existing split: option.splits)

lemma length_foldl_SpendingChart_step:
  "length (foldl SpendingChart_step acc ts) \<le> length acc + length ts"
proof (induction ts arbitrary: acc)
  case Nil
  then show ?case by simp
next
  case (Cons t ts)
  have "length (foldl SpendingChart_step (SpendingChart_step acc t) ts)
          \<le> length (SpendingChart_step acc t) + length ts"
    by (rule Cons.IH)
  with length_SpendingChart_step [of acc t] show ?case by simp
qed

lemma foldl_finite_slices:
  "finite_slices slices \<Longrightarrow>
   foldl (\<lambda>acc item. js_add acc (slice_value item)) acc slices =
   foldl (\<lambda>acc a. js_add acc (Fin a)) acc (map (\<lambda>item. value_of (slice_value item)) slices)"
proof (induction slices arbitrary: acc)
  case Nil
  then show ?case by simp
next
  case (Cons item slices)
  then obtain x where "slice_value item = Fin x"
    by (cases "slice_value item") (auto simp: finite_slices_def)
  with Cons show ?case by (simp add: finite_slices_def)
qed

lemma abs_total_map: "sum_list (map abs (map (\<lambda>t. value_of (amount t)) ts)) = abs_total ts"
  by (simp add: abs_total_def comp_def)

lemma expenses_negative:
  assumes "list_all (\<lambda>t. is_finite (amount t)) (expenses txs)"
  shows "sum_list (map (\<lambda>t. value_of (amount t)) (expenses txs)) = - abs_total (expenses txs)"
proof -
  have "\<forall>t \<in> set (expenses txs). value_of (amount t) < 0"
  proof
    fix t assume t: "t \<in> set (expenses txs)"
    with assms obtain a where "amount t = Fin a"
      by (cases "amount t") (auto simp: list_all_iff)
    with t show "value_of (amount t) < 0" by (simp add: expenses_def)
  qed
  then have "map (\<lambda>t. \<bar>value_of (amount t)\<bar>) (expenses txs) =
             map (\<lambda>t. - value_of (amount t)) (expenses txs)"
    by (intro map_cong) auto
  then have "abs_total (expenses txs) = sum_list (map (\<lambda>t. - value_of (amount t)) (expenses txs))"
    by (simp only: abs_total_def)
  also have "\<dots> = - sum_list (map (\<lambda>t. value_of (amount t)) (expenses txs))"
    by (rule sum_list_map_uminus)
  finally show ?thesis by simp
qed

lemma breakdown_sum_within_tolerance:
  assumes fin: "list_all (\<lambda>t. is_finite (amount t)) (expenses txs)"
    and len: "length (expenses txs) \<le> 1000000"
    and tot: "abs_total (expenses txs) \<le> 10000000"
  shows "\<exists>c e. SpendingChart_totalExpense txs = Fin c \<and> IncomeExpenses_expense txs = Fin e \<and>
           \<bar>c - e\<bar> \<le> 1 / 100"
proof -
  define ex where "ex = expenses txs"
  define T where "T = abs_total ex"
  define u where "u = unit_roundoff"
  define D where "D = 2 * real 1000000 * unit_roundoff * (10000001 + 1)"
  have u: "0 < u" and c1: "underflow_unit \<le> 1" and c0: "0 < underflow_unit"
    by (simp_all add: u_def unit_roundoff_pos underflow_unit_le_1 underflow_unit_pos)
  have D1: "D \<le> 1" and D0: "0 \<le> D" by (simp_all add: D_def unit_roundoff_def)
  have small: "2 * real 1000000 * unit_roundoff \<le> 1" by (simp add: unit_roundoff_def)
  have big: "2 * (10000001 + 1) \<le> (2::real) ^ 1023" by simp
  have T0: "0 \<le> T" unfolding T_def by (rule abs_total_nonneg)
  have T: "T \<le> 10000000" using tot by (simp add: T_def ex_def)
  have lenx: "length ex \<le> 1000000" using len by (simp add: ex_def)
  have finx: "list_all (\<lambda>t. is_finite (amount t)) ex" using fin by (simp add: ex_def)
  \<comment> \<open>the entries of the chart\<close>
  have n: "real (length ex) \<le> 1000000" using lenx by simp
  have "(2 * real (length ex)) * u \<le> 2000000 * u"
    using n u by (intro mult_right_mono) simp_all
  then have nu: "2 * real (length ex) * u \<le> 2000000 * u" by simp
  have "2000000 * u \<le> 1" by (simp add: u_def unit_roundoff_def)
  with nu have small': "2 * real (length ex) * u \<le> 1" by linarith
  have "(1 + u) ^ length ex \<le> 1 + 2 * real (length ex) * u"
    using u small' by (intro growth_bound) simp_all
  with nu have g_le: "(1 + u) ^ length ex \<le> 1 + 2000000 * u" by linarith
  have g1: "1 \<le> (1 + u) ^ length ex" using u by (intro one_le_power) simp
  have g2: "(1 + u) ^ length ex \<le> 2" using g_le \<open>2000000 * u \<le> 1\<close> by linarith
  have cT: "underflow_unit + T \<le> 10000001" and cT0: "0 \<le> underflow_unit + T"
    using c1 c0 T T0 by simp_all
  have "(1 + u) ^ length ex * (underflow_unit + T) \<le> 2 * 10000001"
    using g2 cT cT0 g1 by (intro mult_mono) simp_all
  then have prem: "(1 + unit_roundoff) ^ length ex *
      (\<bar>slices_total []\<bar> + underflow_unit + sum_list (map (\<lambda>t. \<bar>\<bar>value_of (amount t)\<bar>\<bar>) ex))
        \<le> 2 ^ 1023"
    by (simp add: u_def T_def abs_total_def slices_total_def)
  have empty: "finite_slices []" by (simp add: finite_slices_def)
  from accumulate_error [of finite_slices "\<lambda>t. is_finite (amount t)" slices_total
      "\<lambda>t. \<bar>value_of (amount t)\<bar>" SpendingChart_step, OF SpendingChart_step_finite empty finx prem]
  have data: "finite_slices (SpendingChart_data txs)"
    and "\<bar>slices_total (SpendingChart_data txs) - T\<bar> \<le> ((1 + u) ^ length ex - 1) * (underflow_unit + T)"
    by (simp_all add: SpendingChart_data_def ex_def expenses_def T_def abs_total_def
        slices_total_def u_def)
  moreover have "((1 + u) ^ length ex - 1) * (underflow_unit + T) \<le> (2000000 * u) * 10000001"
    using g_le g1 cT cT0 u by (intro mult_mono) simp_all
  moreover have "(2000000 * u) * 10000001 \<le> D"
    by (simp add: D_def u_def unit_roundoff_def)
  ultimately have eS: "\<bar>slices_total (SpendingChart_data txs) - T\<bar> \<le> D" by linarith
  \<comment> \<open>their sum\<close>
  let ?vs = "map (\<lambda>item. value_of (slice_value item)) (SpendingChart_data txs)"
  have "length (SpendingChart_data txs) \<le> length ex"
    using length_foldl_SpendingChart_step [of "[]" ex]
    by (simp add: SpendingChart_data_def ex_def expenses_def)
  with lenx have lenv: "length ?vs \<le> 1000000" by simp
  have "map abs ?vs = ?vs"
    using data by (auto simp: finite_slices_def list_all_iff)
  then have "sum_list (map abs ?vs) = slices_total (SpendingChart_data txs)"
    by (simp only: slices_total_def)
  with eS T D1 have totv: "sum_list (map abs ?vs) \<le> 10000001" by linarith
  from sum_error_bounded [OF lenv totv small big]
  obtain c where c: "SpendingChart_totalExpense txs = Fin c"
    and "\<bar>c - sum_list ?vs\<bar> \<le> D"
    unfolding D_def by (auto simp: SpendingChart_totalExpense_def foldl_finite_slices [OF data])
  then have ec: "\<bar>c - slices_total (SpendingChart_data txs)\<bar> \<le> D"
    by (simp add: slices_total_def)
  \<comment> \<open>the expense total\<close>
  let ?xs = "map (\<lambda>t. value_of (amount t)) ex"
  have lenxs: "length ?xs \<le> 1000000" using lenx by simp
  have totxs: "sum_list (map abs ?xs) \<le> 10000001"
    using T abs_total_map [of ex] unfolding T_def by linarith
  from sum_error_bounded [OF lenxs totxs small big]
  obtain se where se: "foldl (\<lambda>acc item. js_add acc (amount item)) (Fin 0) ex = Fin se"
    and "\<bar>se - sum_list ?xs\<bar> \<le> D"
    unfolding D_def by (auto simp: foldl_amounts [OF finx])
  then have ese: "\<bar>se + T\<bar> \<le> D"
    using expenses_negative [OF fin] by (simp add: ex_def T_def)
  with T T0 D1 have se_le: "\<bar>se\<bar> \<le> 10000001" by linarith
  then have "\<bar>se * (- 1)\<bar> \<le> 2 ^ 1023" by simp
  from round_double_relative_error [OF this]
  obtain e where e: "round_double (se * (- 1)) = Fin e"
    and ee: "\<bar>e - se * (- 1)\<bar> \<le> u * \<bar>se * (- 1)\<bar> + u * underflow_unit"
    unfolding u_def by blast
  have "u * \<bar>se * (- 1)\<bar> \<le> u * 10000001"
    using se_le u by (intro mult_left_mono) simp_all
  moreover have "u * underflow_unit \<le> u * 1"
    using c1 u by (intro mult_left_mono) simp_all
  ultimately have ee': "\<bar>e + se\<bar> \<le> u * 10000002"
    using ee by simp
  have expense: "IncomeExpenses_expense txs = Fin e"
    using se e by (simp add: IncomeExpenses_expense_def ex_def expenses_def)
  \<comment> \<open>together\<close>
  have "\<bar>c - e\<bar> \<le> 3 * D + u * 10000002"
    using ec eS ese ee' by linarith
  also have "\<dots> \<le> 1 / 100"
    by (simp add: D_def u_def unit_roundoff_def)
  finally have "\<bar>c - e\<bar> \<le> 1 / 100" .
  with c expense show ?thesis by blast
qed


section \<open>Properties of the derived views\<close>

text \<open>
  Claim C1, as stated: for every list the balance is within 0.01 of income minus
  expense. Each total is a sum of doubles, rounded after every addition. With amounts
  \<open>2\<^sup>5\<^sup>3\<close>, \<open>-2\<^sup>5\<^sup>3\<close> and \<open>1\<close> the balance is \<open>1\<close>, while the income
  \<open>2\<^sup>5\<^sup>3 + 1\<close> rounds to \<open>2\<^sup>5\<^sup>3\<close> and equals the expense: the two sides differ by 1.
\<close>

theorem balance_tolerance_counterexample:
  "Balance_total txs_absorb = Fin 1 \<and>
   IncomeExpenses_income txs_absorb = Fin 9007199254740992 \<and>
   IncomeExpenses_expense txs_absorb = Fin 9007199254740992 \<and>
   \<not> \<bar>1 - (9007199254740992 - 9007199254740992)\<bar> \<le> (1 / 100 :: real)"
  by (simp add: Balance_total_def IncomeExpenses_income_def IncomeExpenses_expense_def
      txs_absorb_def js_gt_def round_eval)

text \<open>
  Claim C1, amended. For every list of at most \<open>10\<^sup>6\<close> transactions whose amounts are
  finite and whose absolute amounts sum to at most \<open>10\<^sup>7\<close>, the balance, the income
  and the expense are finite, and the balance is within 0.01 of income minus expense.
\<close>

theorem balance_within_tolerance:
  assumes fin: "list_all (\<lambda>t. is_finite (amount t)) txs"
    and len: "length txs \<le> 1000000"
    and tot: "abs_total txs \<le> 10000000"
  shows "\<exists>b i e. Balance_total txs = Fin b \<and> IncomeExpenses_income txs = Fin i \<and>
           IncomeExpenses_expense txs = Fin e \<and> \<bar>b - (i - e)\<bar> \<le> 1 / 100"
proof -
  define v where "v = map (\<lambda>t. value_of (amount t)) txs"
  define D where "D = 2 * real 1000000 * unit_roundoff * (10000000 + 1)"
  define u where "u = unit_roundoff"
  define c where "c = underflow_unit"
  have u: "0 < u" and c1: "c \<le> 1"
    by (simp_all add: u_def c_def unit_roundoff_pos underflow_unit_le_1)
  have D: "D \<le> 1" by (simp add: D_def unit_roundoff_def)
  have small: "2 * real 1000000 * unit_roundoff \<le> 1" by (simp add: unit_roundoff_def)
  have big: "2 * (10000000 + 1) \<le> (2::real) ^ 1023" by simp
  have lenv: "length v \<le> 1000000" using len by (simp add: v_def)
  have totv: "sum_list (map abs v) \<le> 10000000"
    using tot by (simp add: abs_total_def v_def comp_def)
  have len_f: "length (filter P v) \<le> 1000000" for P
    using lenv length_filter_le [of P v] by linarith
  have tot_f: "sum_list (map abs (filter P v)) \<le> 10000000" for P
    using totv sum_list_abs_filter [of P v] by linarith
  \<comment> \<open>the balance\<close>
  have "Balance_total txs = foldl (\<lambda>acc a. js_add acc (Fin a)) (Fin 0) v"
    by (simp add: Balance_total_def v_def foldl_amounts [OF fin])
  with sum_error_bounded [OF lenv totv small big]
  obtain b where b: "Balance_total txs = Fin b" and eb: "\<bar>b - sum_list v\<bar> \<le> D"
    unfolding D_def by auto
  \<comment> \<open>the income\<close>
  have "IncomeExpenses_income txs =
        foldl (\<lambda>acc a. js_add acc (Fin a)) (Fin 0) (filter (\<lambda>a. 0 < a) v)"
    by (simp add: IncomeExpenses_income_def v_def foldl_amounts [OF list_all_filter [OF fin]]
        filter_positive_amounts [OF fin])
  with sum_error_bounded [OF len_f tot_f small big, of "\<lambda>a. 0 < a"]
  obtain i where i: "IncomeExpenses_income txs = Fin i"
    and ei: "\<bar>i - sum_list (filter (\<lambda>a. 0 < a) v)\<bar> \<le> D"
    unfolding D_def by auto
  \<comment> \<open>the expense: the sum of the negative amounts, then \<open>* -1\<close>\<close>
  have "foldl (\<lambda>acc item. js_add acc (amount item)) (Fin 0)
          (filter (\<lambda>item. js_lt (amount item) (Fin 0)) txs) =
        foldl (\<lambda>acc a. js_add acc (Fin a)) (Fin 0) (filter (\<lambda>a. a < 0) v)"
    by (simp add: v_def foldl_amounts [OF list_all_filter [OF fin]]
        filter_negative_amounts [OF fin])
  with sum_error_bounded [OF len_f tot_f small big, of "\<lambda>a. a < 0"]
  obtain se where se: "foldl (\<lambda>acc item. js_add acc (amount item)) (Fin 0)
          (filter (\<lambda>item. js_lt (amount item) (Fin 0)) txs) = Fin se"
    and ese: "\<bar>se - sum_list (filter (\<lambda>a. a < 0) v)\<bar> \<le> D"
    unfolding D_def by auto
  have "\<bar>sum_list (filter (\<lambda>a. a < 0) v)\<bar> \<le> 10000000"
    using abs_sum_list_le [of "filter (\<lambda>a. a < 0) v"] tot_f [of "\<lambda>a. a < 0"] by linarith
  with ese D have se_le: "\<bar>se\<bar> \<le> 10000001" by linarith
  then have "\<bar>se * (- 1)\<bar> \<le> 2 ^ 1023" by simp
  from round_double_relative_error [OF this]
  obtain e where e: "round_double (se * (- 1)) = Fin e"
    and ee: "\<bar>e - se * (- 1)\<bar> \<le> u * \<bar>se * (- 1)\<bar> + u * c"
    unfolding u_def c_def by blast
  have "u * \<bar>se * (- 1)\<bar> \<le> u * 10000001"
    using se_le u by (intro mult_left_mono) simp_all
  moreover have "u * c \<le> u * 1"
    using c1 u by (intro mult_left_mono) simp_all
  ultimately have ee': "\<bar>e + se\<bar> \<le> u * 10000002"
    using ee by simp
  have expense: "IncomeExpenses_expense txs = Fin e"
    using se e by (simp add: IncomeExpenses_expense_def)
  \<comment> \<open>together\<close>
  have split: "sum_list v = sum_list (filter (\<lambda>a. 0 < a) v) + sum_list (filter (\<lambda>a. a < 0) v)"
    by (rule sum_list_split_sign)
  have "\<bar>b - (i - e)\<bar> \<le> 3 * D + u * 10000002"
    using eb ei ese ee' split by linarith
  also have "\<dots> \<le> 1 / 100"
    by (simp add: D_def u_def unit_roundoff_def)
  finally have "\<bar>b - (i - e)\<bar> \<le> 1 / 100" .
  with b i expense show ?thesis by blast
qed

theorem balance_within_tolerance_witness:
  "list_all (\<lambda>t. is_finite (amount t)) [tx_lunch, tx_snack, tx_pay] \<and>
   length [tx_lunch, tx_snack, tx_pay] \<le> 1000000 \<and>
   abs_total [tx_lunch, tx_snack, tx_pay] \<le> 10000000 \<and>
   (\<exists>b i e. Balance_total [tx_lunch, tx_snack, tx_pay] = Fin b \<and>
      IncomeExpenses_income [tx_lunch, tx_snack, tx_pay] = Fin i \<and>
      IncomeExpenses_expense [tx_lunch, tx_snack, tx_pay] = Fin e \<and>
      \<bar>b - (i - e)\<bar> \<le> 1 / 100)"
proof -
  have fin: "list_all (\<lambda>t. is_finite (amount t)) [tx_lunch, tx_snack, tx_pay]"
    by (simp add: tx_lunch_def tx_snack_def tx_pay_def)
  have len: "length [tx_lunch, tx_snack, tx_pay] \<le> 1000000"
    by simp
  have tot: "abs_total [tx_lunch, tx_snack, tx_pay] \<le> 10000000"
    by (simp add: abs_total_def tx_lunch_def tx_snack_def tx_pay_def)
  from fin len tot balance_within_tolerance [OF fin len tot]
  show ?thesis by blast
qed

text \<open>
  Claim C2, at the input where the code departs from it. The breakdown keeps the
  entries with a negative amount and groups them by name, but an expense whose
  category is a string outside the seven enumerated ones keeps that string as the
  name of its group; only a missing (or empty) category becomes \<open>Other\<close>. The list
  row of the same transaction is drawn with the entry \<open>Other\<close>.
\<close>

theorem unknown_category_keeps_its_name:
  "''Travel'' \<notin> set CATEGORIES \<and>
   getCatDetails (category tx_trip) = ''Other'' \<and>
   SpendingChart_data [tx_trip, tx_legacy, tx_pay] =
     [\<lparr>slice_name = ''Travel'', slice_value = Fin 5\<rparr>,
      \<lparr>slice_name = ''Other'', slice_value = Fin 3\<rparr>]"
  by (simp add: SpendingChart_data_def SpendingChart_step_def category_or_Other_def
      CATEGORIES_def getCatDetails_def tx_trip_def tx_legacy_def tx_pay_def)

text \<open>
  Claim C6, as stated: the group values of the breakdown sum to the expense total.
  The chart adds the expenses group by group, the expense total adds them in list
  order, and the two orders round differently: for \<open>-1.1\<close> (Food), \<open>-2.2\<close>
  (Utilities), \<open>-3.3\<close> (Food) the chart's total is \<open>6.6000000000000005\<close> and the
  expense total is \<open>6.6\<close>.
\<close>

theorem breakdown_sum_counterexample:
  "SpendingChart_totalExpense txs_decimal = Fin (7430939385161319 / 1125899906842624) \<and>
   IncomeExpenses_expense txs_decimal = Fin (3715469692580659 / 562949953421312) \<and>
   SpendingChart_totalExpense txs_decimal \<noteq> IncomeExpenses_expense txs_decimal"
  by (simp add: SpendingChart_totalExpense_def SpendingChart_data_def SpendingChart_step_def
      category_or_Other_def IncomeExpenses_expense_def txs_decimal_def round_eval)

text \<open>
  Claim C6, amended. For every list whose expense amounts are whole numbers with
  absolute values summing to at most \<open>2\<^sup>5\<^sup>3\<close>, the group values of the breakdown sum
  to the expense total, and both are the exact sum of the absolute expense amounts.
  For every list with at most \<open>10\<^sup>6\<close> expenses whose amounts are finite and sum in
  absolute value to at most \<open>10\<^sup>7\<close>, the sum of the group values and the expense
  total are finite and within 0.01 of each other.
\<close>

theorem breakdown_sum_matches_expense:
  "(list_all (\<lambda>t. is_integer (amount t)) (expenses txs) \<and>
    abs_total (expenses txs) \<le> 9007199254740992 \<longrightarrow>
      SpendingChart_totalExpense txs = IncomeExpenses_expense txs \<and>
      IncomeExpenses_expense txs = Fin (abs_total (expenses txs))) \<and>
   (list_all (\<lambda>t. is_finite (amount t)) (expenses txs) \<and>
    length (expenses txs) \<le> 1000000 \<and> abs_total (expenses txs) \<le> 10000000 \<longrightarrow>
      (\<exists>c e. SpendingChart_totalExpense txs = Fin c \<and> IncomeExpenses_expense txs = Fin e \<and>
         \<bar>c - e\<bar> \<le> 1 / 100))"
  using breakdown_sum_exact_for_integers [of txs] breakdown_sum_within_tolerance [of txs]
  by blast

theorem breakdown_sum_matches_expense_witness:
  "list_all (\<lambda>t. is_integer (amount t)) (expenses [tx_lunch, tx_snack, tx_pay]) \<and>
   list_all (\<lambda>t. is_finite (amount t)) (expenses [tx_lunch, tx_snack, tx_pay]) \<and>
   length (expenses [tx_lunch, tx_snack, tx_pay]) \<le> 1000000 \<and>
   abs_total (expenses [tx_lunch, tx_snack, tx_pay]) = 30 \<and>
   SpendingChart_totalExpense [tx_lunch, tx_snack, tx_pay] = Fin 30 \<and>
   IncomeExpenses_expense [tx_lunch, tx_snack, tx_pay] = Fin 30 \<and>
   (\<exists>c e. SpendingChart_totalExpense [tx_lunch, tx_snack, tx_pay] = Fin c \<and>
      IncomeExpenses_expense [tx_lunch, tx_snack, tx_pay] = Fin e \<and> \<bar>c - e\<bar> \<le> 1 / 100)"
proof -
  have ex: "expenses [tx_lunch, tx_snack, tx_pay] = [tx_lunch, tx_snack]"
    by (simp add: expenses_def tx_lunch_def tx_snack_def tx_pay_def)
  have ints: "list_all (\<lambda>t. is_integer (amount t)) (expenses [tx_lunch, tx_snack, tx_pay])"
    unfolding ex by (simp add: tx_lunch_def tx_snack_def)
  have fin: "list_all (\<lambda>t. is_finite (amount t)) (expenses [tx_lunch, tx_snack, tx_pay])"
    unfolding ex by (simp add: tx_lunch_def tx_snack_def)
  have len: "length (expenses [tx_lunch, tx_snack, tx_pay]) \<le> 1000000"
    unfolding ex by simp
  have tot: "abs_total (expenses [tx_lunch, tx_snack, tx_pay]) = 30"
    unfolding ex by (simp add: abs_total_def tx_lunch_def tx_snack_def)
  then have le: "abs_total (expenses [tx_lunch, tx_snack, tx_pay]) \<le> 9007199254740992"
    and le': "abs_total (expenses [tx_lunch, tx_snack, tx_pay]) \<le> 10000000"
    by simp_all
  from ints fin len tot le le'
    breakdown_sum_matches_expense [of "[tx_lunch, tx_snack, tx_pay]"]
  show ?thesis by simp
qed

end
